theory Spec2Isabelle
  imports Main "HOL-Library.Sublist" "HOL-Library.Multiset"
begin

section \<open>Data model (types.ts)\<close>

text \<open>
  The enum \<open>ReadingStatus\<close>, the interfaces \<open>Book\<close> and \<open>Filters\<close>.
  JavaScript strings are modelled as \<open>string\<close>: text outside ASCII is read in its UTF-8
  encoding. Case mapping is exact on ASCII strings and a parameter on all others; white
  space is the ASCII white space.
  A JavaScript number that holds a page count or a page is an \<open>int\<close>; where the code can
  store \<open>NaN\<close> (the field \<open>currentPage\<close>, filled from \<open>parseInt\<close> by the bulk parsers)
  the field is an \<open>int option\<close> and \<open>None\<close> is \<open>NaN\<close>.
\<close>

datatype ReadingStatus = Read | Unread | Reading | PlanningToRead | Dropped

record Book =
  bookId :: string
  title :: string
  authors :: "string list"
  publisher :: string
  publishedDate :: string
  description :: string
  pageCount :: int
  categories :: "string list"
  thumbnail :: string
  readingStatus :: ReadingStatus
  currentPage :: "int option"

text \<open>\<open>Filters.readingStatus\<close> is \<open>ReadingStatus | 'all'\<close>: \<open>None\<close> is the sentinel \<open>'all'\<close>.\<close>

record Filters =
  titleF :: string
  authorF :: string
  publisherF :: string
  categoryF :: string
  readingStatusF :: "ReadingStatus option"

section \<open>String primitives of the host language\<close>

text \<open>
  \<open>String.prototype.toLowerCase\<close>. On a string of ASCII characters it moves the letters
  \<open>A\<close> to \<open>Z\<close> (codes 65 to 90) up by 32, which sets bit 5 of the code, and leaves
  every other character. On a string with other characters it follows the Unicode case
  mapping, which is not a map over the characters; that part of the host function is
  the parameter \<open>unicodeLower\<close>, and nothing is assumed about it.
\<close>

fun lowerChar :: "char \<Rightarrow> char" where
  "lowerChar (Char b0 b1 b2 b3 b4 b5 b6 b7) =
     (if (65::nat) \<le> of_char (Char b0 b1 b2 b3 b4 b5 b6 b7)
         \<and> of_char (Char b0 b1 b2 b3 b4 b5 b6 b7) \<le> (90::nat)
      then Char b0 b1 b2 b3 b4 True b6 b7
      else Char b0 b1 b2 b3 b4 b5 b6 b7)"

definition isAscii :: "char \<Rightarrow> bool" where
  "isAscii c = (of_char c < (128::nat))"

definition toLowerCase :: "(string \<Rightarrow> string) \<Rightarrow> string \<Rightarrow> string" where
  "toLowerCase unicodeLower s =
     (if list_all isAscii s then map lowerChar s else unicodeLower s)"

text \<open>\<open>String.prototype.includes\<close>: the needle occurs as a contiguous block.\<close>

fun includesStr :: "string \<Rightarrow> string \<Rightarrow> bool" where
  "includesStr [] needle = (needle = [])"
| "includesStr (c # cs) needle = (prefix needle (c # cs) \<or> includesStr cs needle)"

text \<open>\<open>Array.prototype.join\<close>.\<close>

fun join :: "string \<Rightarrow> string list \<Rightarrow> string" where
  "join sep [] = []"
| "join sep [x] = x"
| "join sep (x # y # ys) = x @ sep @ join sep (y # ys)"

section \<open>Library state manager (App component)\<close>

text \<open>
  The state of \<open>App\<close> that the library operations touch: the book list kept by
  \<open>useLocalStorage\<close> and the book shown in the detail modal.
\<close>

record App =
  books :: "Book list"
  selectedBookDetail :: "Book option"

text \<open>\<open>addBook\<close> takes \<open>Book | Book[]\<close>.\<close>

datatype BookOrBooks = One Book | Many "Book list"

text \<open>
  \<open>addBook\<close>: the bulk branch keeps the incoming books whose id no book of the library
  has, and appends them when any is left; the single branch returns early (after the
  alert) when the id is present, and appends otherwise.
\<close>

definition hasId :: "Book list \<Rightarrow> string \<Rightarrow> bool" where
  "hasId bs i = list_ex (\<lambda>b. bookId b = i) bs"

fun addBook :: "Book list \<Rightarrow> BookOrBooks \<Rightarrow> Book list" where
  "addBook bs (Many bookOrBooks) =
     (let newBooks = filter (\<lambda>newBook. \<not> hasId bs (bookId newBook)) bookOrBooks
      in if length newBooks > 0 then bs @ newBooks else bs)"
| "addBook bs (One book) =
     (if hasId bs (bookId book) then bs else bs @ [book])"

text \<open>\<open>updateBook\<close>: maps over the list, then shows the updated book in the modal.\<close>

definition updateBook :: "Book \<Rightarrow> App \<Rightarrow> App" where
  "updateBook updatedBook app =
     app\<lparr>books := map (\<lambda>book. if bookId book = bookId updatedBook then updatedBook else book)
                      (books app),
         selectedBookDetail := Some updatedBook\<rparr>"

text \<open>
  The update operation as the specification words it, for comparison: it replaces the
  entry with the matching id in place and fails when no entry has that id.
\<close>

datatype NotFoundError = NotFoundError

definition update_spec :: "Book \<Rightarrow> Book list \<Rightarrow> NotFoundError + Book list" where
  "update_spec b bs =
     (if hasId bs (bookId b)
      then Inr (map (\<lambda>x. if bookId x = bookId b then b else x) bs)
      else Inl NotFoundError)"

section \<open>Filter engine (filteredBooks)\<close>

definition initialFilters :: Filters where
  "initialFilters =
     \<lparr>titleF = [], authorF = [], publisherF = [], categoryF = [], readingStatusF = None\<rparr>"

definition titleMatch :: "(string \<Rightarrow> string) \<Rightarrow> Filters \<Rightarrow> Book \<Rightarrow> bool" where
  "titleMatch unicodeLower filters book =
     includesStr (toLowerCase unicodeLower (title book))
       (toLowerCase unicodeLower (titleF filters))"

definition authorMatch :: "(string \<Rightarrow> string) \<Rightarrow> Filters \<Rightarrow> Book \<Rightarrow> bool" where
  "authorMatch unicodeLower filters book =
     includesStr (toLowerCase unicodeLower (join '', '' (authors book)))
       (toLowerCase unicodeLower (authorF filters))"

definition publisherMatch :: "(string \<Rightarrow> string) \<Rightarrow> Filters \<Rightarrow> Book \<Rightarrow> bool" where
  "publisherMatch unicodeLower filters book =
     includesStr (toLowerCase unicodeLower (publisher book))
       (toLowerCase unicodeLower (publisherF filters))"

definition categoryMatch :: "(string \<Rightarrow> string) \<Rightarrow> Filters \<Rightarrow> Book \<Rightarrow> bool" where
  "categoryMatch unicodeLower filters book =
     (categoryF filters = [] \<or>
      includesStr (toLowerCase unicodeLower (join '', '' (categories book)))
        (toLowerCase unicodeLower (categoryF filters)))"

definition statusMatch :: "Filters \<Rightarrow> Book \<Rightarrow> bool" where
  "statusMatch filters book =
     (readingStatusF filters = None \<or> Some (readingStatus book) = readingStatusF filters)"

definition filteredBooks :: "(string \<Rightarrow> string) \<Rightarrow> Book list \<Rightarrow> Filters \<Rightarrow> Book list" where
  "filteredBooks unicodeLower bs filters =
     filter (\<lambda>book. titleMatch unicodeLower filters book
                    \<and> authorMatch unicodeLower filters book
                    \<and> publisherMatch unicodeLower filters book
                    \<and> categoryMatch unicodeLower filters book
                    \<and> statusMatch filters book) bs"

section \<open>More string primitives\<close>

text \<open>
  White space as \<open>trim\<close>, \<open>\s\<close> and \<open>parseInt\<close> see it, on the ASCII range: tab, line
  feed, vertical tab, form feed, carriage return and space.
\<close>

definition isSpace :: "char \<Rightarrow> bool" where
  "isSpace c = (c = CHR 0x09 \<or> c = CHR 0x0A \<or> c = CHR 0x0B \<or> c = CHR 0x0C
                \<or> c = CHR 0x0D \<or> c = CHR '' '')"

definition trim :: "string \<Rightarrow> string" where
  "trim s = rev (dropWhile isSpace (rev (dropWhile isSpace s)))"

text \<open>\<open>s.replace(/\s/g, '')\<close>.\<close>

definition removeSpaces :: "string \<Rightarrow> string" where
  "removeSpaces s = filter (\<lambda>c. \<not> isSpace c) s"

text \<open>Puts a character in front of the first piece of a split.\<close>

fun consHead :: "char \<Rightarrow> string list \<Rightarrow> string list" where
  "consHead c [] = [[c]]"
| "consHead c (f # fs) = (c # f) # fs"

text \<open>\<open>s.split(',')\<close> with a one-character separator: the empty string gives one empty piece.\<close>

fun splitOn :: "char \<Rightarrow> string \<Rightarrow> string list" where
  "splitOn d [] = [[]]"
| "splitOn d (c # cs) = (if c = d then [] # splitOn d cs else consHead c (splitOn d cs))"

text \<open>
  \<open>text.split(/\r?\n/)\<close>: a line feed ends a piece, and a carriage return right before
  it belongs to the separator.
\<close>

fun splitLines :: "string \<Rightarrow> string list" where
  "splitLines [] = [[]]"
| "splitLines [c] = (if c = CHR 0x0A then [[], []] else [[c]])"
| "splitLines (c # d # cs) =
     (if c = CHR 0x0A then [] # splitLines (d # cs)
      else if c = CHR 0x0D \<and> d = CHR 0x0A then [] # splitLines cs
      else consHead c (splitLines (d # cs)))"

definition isDigit :: "char \<Rightarrow> bool" where
  "isDigit c = ((48::nat) \<le> of_char c \<and> of_char c \<le> (57::nat))"

definition digitsVal :: "string \<Rightarrow> nat" where
  "digitsVal ds = foldl (\<lambda>a c. 10 * a + (of_char c - 48)) 0 ds"

text \<open>
  \<open>parseInt(s, 10)\<close>: leading white space, an optional sign, then the longest run of
  digits; \<open>None\<close> is \<open>NaN\<close> (no digit). The value is the exact integer (a JavaScript
  number rounds beyond $2^{53}$).
\<close>

definition parseInt :: "string \<Rightarrow> int option" where
  "parseInt s =
     (let t = dropWhile isSpace s;
          neg = (t \<noteq> [] \<and> hd t = CHR ''-'');
          r = (if t \<noteq> [] \<and> (hd t = CHR ''-'' \<or> hd t = CHR ''+'') then tl t else t);
          ds = takeWhile isDigit r
      in if ds = [] then None
         else Some (if neg then - int (digitsVal ds) else int (digitsVal ds)))"

text \<open>A non-negative integer in decimal, as a template literal prints it.\<close>

fun showNat :: "nat \<Rightarrow> string" where
  "showNat n =
     (if n < 10 then [''0123456789'' ! n]
      else showNat (n div 10) @ [''0123456789'' ! (n mod 10)])"

declare showNat.simps [simp del]

text \<open>
  A property read from an object whose values are strings: \<open>None\<close> is \<open>undefined\<close>.
  \<open>truthy\<close> is the test of \<open>if (v)\<close>, \<open>orElse\<close> is \<open>a || b\<close>, \<open>orDefault\<close> is \<open>a || 'text'\<close>.
\<close>

fun truthy :: "string option \<Rightarrow> bool" where
  "truthy None = False"
| "truthy (Some s) = (s \<noteq> [])"

definition orElse :: "string option \<Rightarrow> string option \<Rightarrow> string option" where
  "orElse a b = (if truthy a then a else b)"

fun orDefault :: "string option \<Rightarrow> string \<Rightarrow> string" where
  "orDefault None d = d"
| "orDefault (Some s) d = (if s \<noteq> [] then s else d)"

section \<open>Bulk import parser (AddBookModal)\<close>

text \<open>
  The string values of the enum; the Turkish letters are written as their UTF-8 bytes.
\<close>

fun statusValue :: "ReadingStatus \<Rightarrow> string" where
  "statusValue Read = ''Okudum''"
| "statusValue Unread = ''Okumad'' @ [CHR 0xC4, CHR 0xB1] @ ''m''"
| "statusValue Reading = ''Okuyorum''"
| "statusValue PlanningToRead =
     ''Okumay'' @ [CHR 0xC4, CHR 0xB1] @ '' D'' @ [CHR 0xC3, CHR 0xBC, CHR 0xC5, CHR 0x9F,
       CHR 0xC3, CHR 0xBC] @ ''n'' @ [CHR 0xC3, CHR 0xBC] @ ''yorum''"
| "statusValue Dropped =
     ''Yar'' @ [CHR 0xC4, CHR 0xB1] @ ''da B'' @ [CHR 0xC4, CHR 0xB1] @ ''rakt''
       @ [CHR 0xC4, CHR 0xB1] @ ''m''"

text \<open>
  \<open>Object.values(ReadingStatus).includes(raw) ? raw : ReadingStatus.PlanningToRead\<close>.
\<close>

definition statusOfString :: "string option \<Rightarrow> ReadingStatus" where
  "statusOfString raw =
     (if raw = Some (statusValue Read) then Read
      else if raw = Some (statusValue Unread) then Unread
      else if raw = Some (statusValue Reading) then Reading
      else if raw = Some (statusValue PlanningToRead) then PlanningToRead
      else if raw = Some (statusValue Dropped) then Dropped
      else PlanningToRead)"

subsection \<open>parseLine\<close>

definition countQuotes :: "string \<Rightarrow> nat" where
  "countQuotes s = length (filter (\<lambda>c. c = CHR 0x22) s)"

text \<open>
  \<open>line.split(/,(?=(?:(?:[^"]*"){2})*[^"]*$)/)\<close>: the look-ahead holds at a comma exactly
  when the rest of the line holds an even number of double quotes, and the line is cut
  at those commas.
\<close>

fun splitCsv :: "string \<Rightarrow> string list" where
  "splitCsv [] = [[]]"
| "splitCsv (c # cs) =
     (if c = CHR '','' \<and> even (countQuotes cs) then [] # splitCsv cs
      else consHead c (splitCsv cs))"

text \<open>
  \<open>val.replace(/^"|"$/g, '')\<close>: one double quote at the start goes, and one at the end
  (of what is left).
\<close>

definition stripQuotes :: "string \<Rightarrow> string" where
  "stripQuotes s =
     (let s1 = (if s \<noteq> [] \<and> hd s = CHR 0x22 then tl s else s)
      in if s1 \<noteq> [] \<and> last s1 = CHR 0x22 then butlast s1 else s1)"

text \<open>\<open>val.replace(/""/g, '"')\<close>: pairs of double quotes, left to right.\<close>

fun unescapeQuotes :: "string \<Rightarrow> string" where
  "unescapeQuotes [] = []"
| "unescapeQuotes [c] = [c]"
| "unescapeQuotes (c # d # cs) =
     (if c = CHR 0x22 \<and> d = CHR 0x22 then CHR 0x22 # unescapeQuotes cs
      else c # unescapeQuotes (d # cs))"

definition parseLine :: "string \<Rightarrow> string list" where
  "parseLine line = map (\<lambda>val. unescapeQuotes (stripQuotes (trim val))) (splitCsv line)"

subsection \<open>parseCSV\<close>

text \<open>
  The object \<open>row\<close>: \<open>headers.forEach((header, index) => row[header] = values[index])\<close>,
  so a header that occurs twice keeps its last value. Only the fixed keys below are
  read from it.
\<close>

definition rowGet :: "string list \<Rightarrow> string list \<Rightarrow> string \<Rightarrow> string option" where
  "rowGet headers values key = map_of (rev (zip headers values)) key"

text \<open>
  The object literal pushed for a row. \<open>now\<close> is the reading of \<open>Date.now()\<close> taken
  while the row with the given index is handled.
\<close>

definition rowAuthors :: "(string \<Rightarrow> string option) \<Rightarrow> string list" where
  "rowAuthors row =
     (if truthy (row ''author'')
      then map trim (splitOn CHR '','' (orDefault (row ''author'') []))
      else if truthy (row ''authors'')
      then map trim (splitOn CHR '','' (orDefault (row ''authors'') []))
      else [''Unknown''])"

definition rowCategories :: "(string \<Rightarrow> string option) \<Rightarrow> string list" where
  "rowCategories row =
     (if truthy (row ''categories'')
      then map trim (splitOn CHR '','' (orDefault (row ''categories'') []))
      else if truthy (row ''category'') then [orDefault (row ''category'') []]
      else [''Uncategorized''])"

definition rowBook :: "(nat \<Rightarrow> nat) \<Rightarrow> nat \<Rightarrow> (string \<Rightarrow> string option) \<Rightarrow> Book" where
  "rowBook now i row =
     (let pageCountVal = parseInt (orDefault (orElse (row ''pagecount'') (row ''pages'')) ''0'')
      in \<lparr>bookId = ''bulk_'' @ showNat (now i) @ ''_'' @ showNat i,
          title = orDefault (row ''title'') [],
          authors = rowAuthors row,
          publisher = orDefault (row ''publisher'') ''Unknown Publisher'',
          publishedDate = orDefault (orElse (row ''publisheddate'') (row ''year'')) ''N/A'',
          description = orDefault (row ''description'') [],
          pageCount = (case pageCountVal of None \<Rightarrow> 0 | Some n \<Rightarrow> n),
          categories = rowCategories row,
          thumbnail = orDefault (orElse (row ''imagelink'') (row ''thumbnail''))
                        (''https://picsum.photos/seed/''
                           @ removeSpaces (orDefault (row ''title'') []) @ ''/300/480''),
          readingStatus = statusOfString (row ''status''),
          currentPage = parseInt (orDefault (row ''currentpage'') ''0'')\<rparr>)"

text \<open>The loop over the data lines, \<open>i\<close> being the index of the line at the head.\<close>

fun parseRows :: "(nat \<Rightarrow> nat) \<Rightarrow> string list \<Rightarrow> nat \<Rightarrow> string list \<Rightarrow> Book list" where
  "parseRows now headers i [] = []"
| "parseRows now headers i (line # rest) =
     (let values = parseLine line
      in if length values < length headers then parseRows now headers (Suc i) rest
         else let row = rowGet headers values
              in if \<not> truthy (row ''title'') \<or> \<not> truthy (row ''author'')
                 then parseRows now headers (Suc i) rest
                 else rowBook now i row # parseRows now headers (Suc i) rest)"

definition csvLines :: "string \<Rightarrow> string list" where
  "csvLines text = filter (\<lambda>line. trim line \<noteq> []) (splitLines text)"

text \<open>\<open>parseCSV\<close>: \<open>Inl\<close> carries the message of the thrown \<open>Error\<close>.\<close>

definition parseCSV :: "(string \<Rightarrow> string) \<Rightarrow> (nat \<Rightarrow> nat) \<Rightarrow> string \<Rightarrow> string + Book list" where
  "parseCSV unicodeLower now text =
     (let lines = csvLines text
      in if length lines < 2 then Inl ''CSV file is empty or missing headers''
         else let headers = parseLine (toLowerCase unicodeLower (hd lines))
              in Inr (parseRows now headers 1 (tl lines)))"

subsection \<open>parseXML\<close>

text \<open>
  The document is parsed by the browser's \<open>DOMParser\<close>, which is not part of the
  repository: a \<open><book>\<close> element is given by its \<open>getText\<close>, the function from a tag
  name to the text of the first descendant with that tag, or to the empty string. The
  loop index starts at 0.
\<close>

type_synonym BookNode = "string \<Rightarrow> string"

definition nodeBook :: "(nat \<Rightarrow> nat) \<Rightarrow> nat \<Rightarrow> BookNode \<Rightarrow> Book" where
  "nodeBook now i getText =
     (let pageCountVal =
            parseInt (if getText ''pageCount'' \<noteq> [] then getText ''pageCount''
                      else if getText ''pages'' \<noteq> [] then getText ''pages'' else ''0'')
      in \<lparr>bookId = ''bulk_'' @ showNat (now i) @ ''_'' @ showNat i,
          title = getText ''title'',
          authors = (if getText ''author'' \<noteq> []
                     then map trim (splitOn CHR '','' (getText ''author'')) else [''Unknown'']),
          publisher = (if getText ''publisher'' \<noteq> [] then getText ''publisher''
                       else ''Unknown Publisher''),
          publishedDate = (if getText ''publishedDate'' \<noteq> [] then getText ''publishedDate''
                           else ''N/A''),
          description = getText ''description'',
          pageCount = (case pageCountVal of None \<Rightarrow> 0 | Some n \<Rightarrow> n),
          categories = (if getText ''categories'' \<noteq> []
                        then splitOn CHR '','' (getText ''categories'') else [''Uncategorized'']),
          thumbnail = (if getText ''thumbnail'' \<noteq> [] then getText ''thumbnail''
                       else ''https://picsum.photos/seed/''
                              @ removeSpaces (getText ''title'') @ ''/300/480''),
          readingStatus = statusOfString (Some (getText ''status'')),
          currentPage = parseInt (if getText ''currentPage'' \<noteq> [] then getText ''currentPage''
                                  else ''0'')\<rparr>)"

fun parseNodes :: "(nat \<Rightarrow> nat) \<Rightarrow> nat \<Rightarrow> BookNode list \<Rightarrow> Book list" where
  "parseNodes now i [] = []"
| "parseNodes now i (node # rest) =
     (if node ''title'' = [] then parseNodes now (Suc i) rest
      else nodeBook now i node # parseNodes now (Suc i) rest)"

definition parseXML :: "(nat \<Rightarrow> nat) \<Rightarrow> BookNode list \<Rightarrow> Book list" where
  "parseXML now bookNodes = parseNodes now 0 bookNodes"

subsection \<open>handleFileUpload and handleBulkImport\<close>

text \<open>
  The bulk-upload state of the modal. \<open>handleFileUpload\<close> resets it and, once the file
  is read, stores the parsed books or an error message; \<open>domParser\<close> stands for the
  \<open>DOMParser\<close> and \<open>getElementsByTagName("book")\<close>. It never touches the library.
\<close>

record Upload =
  parsedBooks :: "Book list"
  bulkError :: string
  bulkSuccessCount :: nat

definition endsWith :: "string \<Rightarrow> string \<Rightarrow> bool" where
  "endsWith name ext = suffix ext name"

definition parseFile ::
  "(string \<Rightarrow> string) \<Rightarrow> (nat \<Rightarrow> nat) \<Rightarrow> (string \<Rightarrow> BookNode list) \<Rightarrow> string \<Rightarrow> string \<Rightarrow> string + Book list" where
  "parseFile unicodeLower now domParser name text =
     (if endsWith name ''.csv'' then parseCSV unicodeLower now text
      else if endsWith name ''.xml'' then Inr (parseXML now (domParser text))
      else Inl ''Unsupported file format. Please use .csv or .xml'')"

definition handleFileUpload ::
  "(string \<Rightarrow> string) \<Rightarrow> (nat \<Rightarrow> nat) \<Rightarrow> (string \<Rightarrow> BookNode list) \<Rightarrow> string \<Rightarrow> string \<Rightarrow> Upload" where
  "handleFileUpload unicodeLower now domParser name text =
     (case parseFile unicodeLower now domParser name text of
        Inl message \<Rightarrow>
          \<lparr>parsedBooks = [],
           bulkError = (if message \<noteq> [] then message else ''Failed to parse file.''),
           bulkSuccessCount = 0\<rparr>
      | Inr foundBooks \<Rightarrow>
          if length foundBooks = 0
          then \<lparr>parsedBooks = [], bulkError = ''No valid books found in file.'',
                bulkSuccessCount = 0\<rparr>
          else \<lparr>parsedBooks = foundBooks, bulkError = [], bulkSuccessCount = 0\<rparr>)"

text \<open>\<open>b.authors[0]?.toLowerCase()\<close>: \<open>None\<close> is \<open>undefined\<close>.\<close>

fun firstAuthorLower :: "(string \<Rightarrow> string) \<Rightarrow> string list \<Rightarrow> string option" where
  "firstAuthorLower unicodeLower [] = None"
| "firstAuthorLower unicodeLower (a # as) = Some (toLowerCase unicodeLower a)"

definition isDuplicate :: "(string \<Rightarrow> string) \<Rightarrow> Book list \<Rightarrow> Book \<Rightarrow> bool" where
  "isDuplicate unicodeLower bs book =
     list_ex (\<lambda>b. toLowerCase unicodeLower (title b) = toLowerCase unicodeLower (title book)
                  \<and> firstAuthorLower unicodeLower (authors b)
                      = firstAuthorLower unicodeLower (authors book)) bs"

text \<open>
  \<open>handleBulkImport\<close>: the library after the import and the new \<open>bulkSuccessCount\<close>.
  The candidates are collected first; \<open>onBookAdd\<close> (that is \<open>addBook\<close>) is called once.
\<close>

definition handleBulkImport :: "(string \<Rightarrow> string) \<Rightarrow> Book list \<Rightarrow> Book list \<Rightarrow> Book list \<times> nat" where
  "handleBulkImport unicodeLower bs parsed =
     (let newBooks = filter (\<lambda>book. \<not> isDuplicate unicodeLower bs book) parsed
      in if length newBooks > 0 then (addBook bs (Many newBooks), length newBooks)
         else (bs, 0))"

section \<open>Reading progress on the single-book paths\<close>

text \<open>
  \<open>finalCurrentPage\<close> of \<open>handleAddBook\<close> (search and manual add); the first argument
  is the text of the current-page input. \<open>parseInt(currentPage, 10) || 0\<close> turns \<open>NaN\<close>
  into 0.
\<close>

definition finalCurrentPage :: "string \<Rightarrow> ReadingStatus \<Rightarrow> int \<Rightarrow> int" where
  "finalCurrentPage currentPageText status totalPages =
     (if status = Read then totalPages
      else if status = Unread \<or> status = PlanningToRead then 0
      else let current = (case parseInt currentPageText of None \<Rightarrow> 0 | Some n \<Rightarrow> n)
           in max 0 (min current totalPages))"

text \<open>\<open>handleStatusUpdate\<close> of the detail modal: the book handed to \<open>onUpdateBook\<close>.\<close>

definition handleStatusUpdate :: "Book \<Rightarrow> ReadingStatus \<Rightarrow> string \<Rightarrow> Book" where
  "handleStatusUpdate book currentStatus currentPageInput =
     (let totalPages = pageCount book;
          finalPage =
            (if currentStatus = Read then totalPages
             else if currentStatus = Unread \<or> currentStatus = PlanningToRead then 0
             else (case parseInt currentPageInput of
                     None \<Rightarrow> 0
                   | Some newPage \<Rightarrow>
                       if newPage < 0 then 0
                       else if newPage > totalPages then totalPages
                       else newPage))
      in book\<lparr>readingStatus := currentStatus, currentPage := Some finalPage\<rparr>)"

text \<open>
  The status/page rule of the data model, as a test on one book: Read means the last
  page, Unread and PlanningToRead mean page 0, Reading and Dropped mean a page between
  0 and the page count.
\<close>

fun statusPageOk :: "ReadingStatus \<Rightarrow> int \<Rightarrow> int option \<Rightarrow> bool" where
  "statusPageOk Read n page = (page = Some n)"
| "statusPageOk Unread n page = (page = Some 0)"
| "statusPageOk PlanningToRead n page = (page = Some 0)"
| "statusPageOk Reading n None = False"
| "statusPageOk Reading n (Some p) = (0 \<le> p \<and> p \<le> n)"
| "statusPageOk Dropped n None = False"
| "statusPageOk Dropped n (Some p) = (0 \<le> p \<and> p \<le> n)"

definition statusPageInvariant :: "Book \<Rightarrow> bool" where
  "statusPageInvariant b = statusPageOk (readingStatus b) (pageCount b) (currentPage b)"

section \<open>Stats aggregator (StatsPanel)\<close>

text \<open>
  \<open>categoryCounts\<close> is an object literal \<open>{}\<close> used as a counter: the list of its own
  properties in insertion order, over the properties it inherits from
  \<open>Object.prototype\<close>. A stored value is a number or, when the count started from an
  inherited function, a string.
\<close>

datatype counterVal = Num nat | Text string

text \<open>
  The properties of \<open>Object.prototype\<close> whose value is a function. Its one other
  property, \<open>__proto__\<close>, is an accessor.
\<close>

definition prototypeFunctions :: "string list" where
  "prototypeFunctions =
     [''constructor'', ''hasOwnProperty'', ''isPrototypeOf'', ''propertyIsEnumerable'',
      ''toLocaleString'', ''toString'', ''valueOf'', ''__defineGetter__'',
      ''__defineSetter__'', ''__lookupGetter__'', ''__lookupSetter__'']"

text \<open>\<open>(v || 0) + 1\<close> for an own value \<open>v\<close>: a string is truthy unless empty, and \<open>+\<close> appends.\<close>

fun plusOne :: "counterVal \<Rightarrow> counterVal" where
  "plusOne (Num n) = Num (n + 1)"
| "plusOne (Text s) = (if s = [] then Num 1 else Text (s @ ''1''))"

text \<open>
  \<open>(acc[cat] || 0) + 1\<close>: the own value when there is one; else, for the name of an
  inherited function, the text of that function followed by \<open>1\<close>; else 1. The text of a
  native function starts with \<open>function\<close>; what follows depends on the engine and is the
  parameter \<open>nativeRest\<close>.
\<close>

definition nextVal :: "(string \<Rightarrow> string) \<Rightarrow> (string \<times> counterVal) list \<Rightarrow> string \<Rightarrow> counterVal" where
  "nextVal nativeRest acc cat =
     (case map_of acc cat of
        Some v \<Rightarrow> plusOne v
      | None \<Rightarrow>
          if cat \<in> set prototypeFunctions then Text (''function'' @ nativeRest cat @ ''1'')
          else Num 1)"

text \<open>\<open>acc[k] = v\<close> on an own or new data property: in place, or at the end.\<close>

fun assign :: "(string \<times> counterVal) list \<Rightarrow> string \<Rightarrow> counterVal \<Rightarrow> (string \<times> counterVal) list" where
  "assign [] k v = [(k, v)]"
| "assign ((k', v') # acc) k v =
     (if k' = k then (k, v) # acc else (k', v') # assign acc k v)"

text \<open>
  \<open>acc[cat] = (acc[cat] || 0) + 1\<close>. With \<open>__proto__\<close> the value read is
  \<open>Object.prototype\<close>, the sum is a string, and the inherited setter ignores a string:
  nothing is stored.
\<close>

definition bump :: "(string \<Rightarrow> string) \<Rightarrow> (string \<times> counterVal) list \<Rightarrow> string \<Rightarrow> (string \<times> counterVal) list" where
  "bump nativeRest acc cat =
     (if cat = ''__proto__'' then acc else assign acc cat (nextVal nativeRest acc cat))"

text \<open>The test \<open>cat && cat !== 'Uncategorized'\<close>.\<close>

definition counted :: "string \<Rightarrow> bool" where
  "counted cat = (cat \<noteq> [] \<and> cat \<noteq> ''Uncategorized'')"

definition countCategories ::
  "(string \<Rightarrow> string) \<Rightarrow> (string \<times> counterVal) list \<Rightarrow> string list \<Rightarrow> (string \<times> counterVal) list" where
  "countCategories nativeRest acc cats =
     foldl (\<lambda>a cat. if counted cat then bump nativeRest a cat else a) acc cats"

definition categoryCounts :: "(string \<Rightarrow> string) \<Rightarrow> Book list \<Rightarrow> (string \<times> counterVal) list" where
  "categoryCounts nativeRest bs =
     foldl (\<lambda>acc book. countCategories nativeRest acc (categories book)) [] bs"

text \<open>
  \<open>Object.entries\<close> lists the keys that are array indices (canonical decimal numbers
  below $2^{32} - 1$) first, in ascending numeric order, then the other keys in
  insertion order.
\<close>

definition isArrayIndex :: "string \<Rightarrow> bool" where
  "isArrayIndex k =
     (k \<noteq> [] \<and> list_all isDigit k \<and> (k = ''0'' \<or> hd k \<noteq> CHR ''0'')
      \<and> digitsVal k < 4294967295)"

definition objectEntries :: "(string \<times> counterVal) list \<Rightarrow> (string \<times> counterVal) list" where
  "objectEntries acc =
     sort_key (\<lambda>e. digitsVal (fst e)) (filter (\<lambda>e. isArrayIndex (fst e)) acc)
       @ filter (\<lambda>e. \<not> isArrayIndex (fst e)) acc"

text \<open>
  \<open>x > y\<close> on stored values: numbers by size, two strings by the order of their code
  units; a stored string starts with \<open>function\<close>, so it converts to \<open>NaN\<close> and every
  comparison of it with a number is false.
\<close>

fun strLess :: "string \<Rightarrow> string \<Rightarrow> bool" where
  "strLess [] [] = False"
| "strLess [] (d # ds) = True"
| "strLess (c # cs) [] = False"
| "strLess (c # cs) (d # ds) =
     ((of_char c :: nat) < of_char d \<or> (c = d \<and> strLess cs ds))"

fun jsGreater :: "counterVal \<Rightarrow> counterVal \<Rightarrow> bool" where
  "jsGreater (Num a) (Num b) = (a > b)"
| "jsGreater (Text a) (Text b) = strLess b a"
| "jsGreater (Num a) (Text b) = False"
| "jsGreater (Text a) (Num b) = False"

text \<open>The reducer \<open>(a, b) => a[1] > b[1] ? a : b\<close>.\<close>

definition pickGenre :: "string \<times> counterVal \<Rightarrow> string \<times> counterVal \<Rightarrow> string \<times> counterVal" where
  "pickGenre a b = (if jsGreater (snd a) (snd b) then a else b)"

definition favoriteGenre :: "(string \<Rightarrow> string) \<Rightarrow> Book list \<Rightarrow> string" where
  "favoriteGenre nativeRest bs =
     (case objectEntries (categoryCounts nativeRest bs) of
        [] \<Rightarrow> ''N/A''
      | e # es \<Rightarrow> fst (foldl pickGenre e es))"

text \<open>
  A category name that is no property name of \<open>Object.prototype\<close>; the number stored
  for a key, 0 when there is none; and the shape of a counter built from such names:
  one entry for a key, every value a number above 0.
\<close>

definition plainKey :: "string \<Rightarrow> bool" where
  "plainKey cat = (cat \<noteq> ''__proto__'' \<and> cat \<notin> set prototypeFunctions)"

fun numberOf :: "counterVal \<Rightarrow> nat" where
  "numberOf (Num n) = n"
| "numberOf (Text s) = 0"

definition countOf :: "(string \<times> counterVal) list \<Rightarrow> string \<Rightarrow> nat" where
  "countOf acc cat = (case map_of acc cat of None \<Rightarrow> 0 | Some v \<Rightarrow> numberOf v)"

fun positiveNum :: "counterVal \<Rightarrow> bool" where
  "positiveNum (Num n) = (0 < n)"
| "positiveNum (Text s) = False"

definition goodAcc :: "(string \<times> counterVal) list \<Rightarrow> bool" where
  "goodAcc acc = (distinct (map fst acc) \<and> list_all (\<lambda>e. positiveNum (snd e)) acc)"

section \<open>Writing a CSV line\<close>

text \<open>
  The CSV convention that the parser is measured against: a field is written either
  plainly or between double quotes with every double quote of its content doubled, and
  the fields of a line are joined by commas. A plain field must contain no comma and
  no double quote.
\<close>

datatype CsvField = Quoted string | Plain string

fun escapeQuotes :: "string \<Rightarrow> string" where
  "escapeQuotes [] = []"
| "escapeQuotes (c # cs) =
     (if c = CHR 0x22 then CHR 0x22 # CHR 0x22 # escapeQuotes cs else c # escapeQuotes cs)"

fun writeField :: "CsvField \<Rightarrow> string" where
  "writeField (Quoted s) = CHR 0x22 # escapeQuotes s @ [CHR 0x22]"
| "writeField (Plain s) = s"

fun fieldOk :: "CsvField \<Rightarrow> bool" where
  "fieldOk (Quoted s) = True"
| "fieldOk (Plain s) = (CHR '','' \<notin> set s \<and> CHR 0x22 \<notin> set s)"

text \<open>The value a reader should get: the content of a quoted field, a plain field trimmed.\<close>

fun fieldValue :: "CsvField \<Rightarrow> string" where
  "fieldValue (Quoted s) = s"
| "fieldValue (Plain s) = trim s"

definition writeLine :: "CsvField list \<Rightarrow> string" where
  "writeLine fs = join '','' (map writeField fs)"

text \<open>Concrete books used in the examples below.\<close>

definition bookA :: Book where
  "bookA = \<lparr>bookId = ''a1'', title = ''Dune'', authors = [''Frank Herbert''],
            publisher = ''Ace'', publishedDate = ''1965'', description = [],
            pageCount = 412, categories = [''Science'', ''Fiction''],
            thumbnail = ''u'', readingStatus = Reading, currentPage = Some 10\<rparr>"

definition bookB :: Book where
  "bookB = \<lparr>bookId = ''b2'', title = ''Emma'', authors = [''Jane Austen''],
            publisher = ''Murray'', publishedDate = ''1815'', description = [],
            pageCount = 300, categories = [''Classic''],
            thumbnail = ''v'', readingStatus = Read, currentPage = Some 300\<rparr>"

section \<open>Basic facts\<close>

lemma includes_Nil [simp]: "includesStr s []"
  by (cases s) simp_all

lemma includes_iff_sublist: "includesStr hay needle \<longleftrightarrow> sublist needle hay"
  by (induction hay) (auto simp: sublist_Cons_right)

lemma hasId_iff: "hasId bs i \<longleftrightarrow> i \<in> bookId ` set bs"
  by (auto simp: hasId_def list_ex_iff)

lemma addBook_Many:
  "addBook bs (Many inc) = bs @ filter (\<lambda>nb. bookId nb \<notin> bookId ` set bs) inc"
  by (simp add: Let_def hasId_iff)

lemma distinct_addBook_Many:
  assumes "distinct (map bookId bs)" and "distinct (map bookId inc)"
  shows "distinct (map bookId (addBook bs (Many inc)))"
proof -
  have "distinct (map bookId (filter (\<lambda>nb. bookId nb \<notin> bookId ` set bs) inc))"
    using assms(2) by (rule distinct_map_filter)
  with assms(1) show ?thesis
    unfolding addBook_Many by (auto simp: image_iff; metis)
qed

lemma distinct_addMany_seq:
  assumes "distinct (map bookId lib)"
    and "\<forall>batch \<in> set batches. distinct (map bookId batch)"
  shows "distinct (map bookId (foldl (\<lambda>l batch. addBook l (Many batch)) lib batches))"
  using assms
proof (induction batches arbitrary: lib)
  case Nil
  then show ?case by simp
next
  case (Cons batch batches)
  have "distinct (map bookId (addBook lib (Many batch)))"
    using Cons.prems by (intro distinct_addBook_Many) simp_all
  with Cons show ?case by simp
qed

lemma updateBook_books:
  "books (updateBook b app) = map (\<lambda>x. if bookId x = bookId b then b else x) (books app)"
  by (simp add: updateBook_def)

lemma map_replace_absent:
  "\<not> hasId bs (bookId b) \<Longrightarrow> map (\<lambda>x. if bookId x = bookId b then b else x) bs = bs"
  by (induction bs) (auto simp: hasId_def)

section \<open>Facts about the CSV line splitter\<close>

lemma countQuotes_Nil: "countQuotes [] = 0"
  by (simp add: countQuotes_def)

lemma countQuotes_append: "countQuotes (a @ b) = countQuotes a + countQuotes b"
  by (simp add: countQuotes_def)

lemma countQuotes_Cons: "countQuotes (c # cs) = (if c = CHR 0x22 then Suc (countQuotes cs) else countQuotes cs)"
  by (simp add: countQuotes_def)

lemma even_countQuotes_escape: "even (countQuotes (escapeQuotes s))"
  by (induction s) (simp_all add: countQuotes_Cons countQuotes_Nil)

lemma splitCsv_escape:
  assumes "splitCsv ys = f # fs" and "odd (countQuotes ys)"
  shows "splitCsv (escapeQuotes s @ ys) = (escapeQuotes s @ f) # fs"
  using assms
  by (induction s) (simp_all add: countQuotes_append even_countQuotes_escape countQuotes_Cons)

lemma splitCsv_plain:
  assumes "splitCsv ys = f # fs" and "CHR '','' \<notin> set p"
  shows "splitCsv (p @ ys) = (p @ f) # fs"
  using assms by (induction p) auto

lemma countQuotes_none: "CHR 0x22 \<notin> set s \<Longrightarrow> countQuotes s = 0"
  by (induction s) (auto simp: countQuotes_Cons countQuotes_Nil)

lemma even_countQuotes_writeField: "fieldOk fld \<Longrightarrow> even (countQuotes (writeField fld))"
  by (cases fld)
    (simp_all add: countQuotes_Cons countQuotes_append even_countQuotes_escape
      countQuotes_Nil countQuotes_none)

lemma splitCsv_writeField:
  assumes "fieldOk fld" and "splitCsv ys = f # fs" and "even (countQuotes ys)"
  shows "splitCsv (writeField fld @ ys) = (writeField fld @ f) # fs"
proof (cases fld)
  case (Quoted s)
  have "splitCsv (CHR 0x22 # ys) = (CHR 0x22 # f) # fs"
    using assms(2) by simp
  moreover have "odd (countQuotes (CHR 0x22 # ys))"
    using assms(3) by (simp add: countQuotes_Cons)
  ultimately have "splitCsv (escapeQuotes s @ CHR 0x22 # ys) = (escapeQuotes s @ CHR 0x22 # f) # fs"
    by (rule splitCsv_escape)
  then show ?thesis using Quoted by simp
next
  case (Plain s)
  then show ?thesis using assms splitCsv_plain by simp
qed

lemma even_countQuotes_writeLine:
  "\<forall>f \<in> set fs. fieldOk f \<Longrightarrow> even (countQuotes (writeLine fs))"
proof (induction fs rule: induct_list012)
  case 1
  then show ?case by (simp add: writeLine_def countQuotes_Nil)
next
  case (2 x)
  then show ?case by (simp add: writeLine_def even_countQuotes_writeField)
next
  case (3 x y zs)
  then show ?case
    by (simp add: writeLine_def countQuotes_append countQuotes_Cons even_countQuotes_writeField)
qed

lemma splitCsv_writeLine:
  "fs \<noteq> [] \<Longrightarrow> \<forall>f \<in> set fs. fieldOk f \<Longrightarrow> splitCsv (writeLine fs) = map writeField fs"
proof (induction fs rule: induct_list012)
  case 1
  then show ?case by simp
next
  case (2 x)
  have "splitCsv (writeField x @ []) = (writeField x @ []) # []"
    using 2 by (intro splitCsv_writeField) (simp_all add: countQuotes_Nil)
  then show ?case by (simp add: writeLine_def)
next
  case (3 x y zs)
  have ih: "splitCsv (writeLine (y # zs)) = map writeField (y # zs)"
    using 3 by simp
  have ev: "even (countQuotes (writeLine (y # zs)))"
    using 3 by (intro even_countQuotes_writeLine) simp
  have "splitCsv (CHR '','' # writeLine (y # zs)) = [] # map writeField (y # zs)"
    using ih ev by simp
  moreover have "even (countQuotes (CHR '','' # writeLine (y # zs)))"
    using ev by (simp add: countQuotes_Cons)
  ultimately have "splitCsv (writeField x @ CHR '','' # writeLine (y # zs))
      = (writeField x @ []) # map writeField (y # zs)"
    using 3 by (intro splitCsv_writeField) simp_all
  then show ?case by (simp add: writeLine_def)
qed

lemma unescapeQuotes_other:
  "c \<noteq> CHR 0x22 \<Longrightarrow> unescapeQuotes (c # xs) = c # unescapeQuotes xs"
  by (cases xs) simp_all

lemma unescape_escape: "unescapeQuotes (escapeQuotes s) = s"
  by (induction s) (simp_all add: unescapeQuotes_other)

lemma unescape_no_quotes: "CHR 0x22 \<notin> set s \<Longrightarrow> unescapeQuotes s = s"
  by (induction s) (auto simp: unescapeQuotes_other)

lemma stripQuotes_no_quotes: "CHR 0x22 \<notin> set s \<Longrightarrow> stripQuotes s = s"
proof -
  assume a: "CHR 0x22 \<notin> set s"
  then have "s \<noteq> [] \<Longrightarrow> hd s \<noteq> CHR 0x22" and "s \<noteq> [] \<Longrightarrow> last s \<noteq> CHR 0x22"
    using hd_in_set last_in_set by metis+
  then show ?thesis by (auto simp: stripQuotes_def Let_def)
qed

lemma set_trim: "set (trim s) \<subseteq> set s"
proof -
  have "set (dropWhile isSpace (rev (dropWhile isSpace s))) \<subseteq> set (rev (dropWhile isSpace s))"
    by (rule set_dropWhileD[THEN subsetI]) 
  also have "\<dots> \<subseteq> set s" using set_dropWhileD by fastforce
  finally show ?thesis by (simp add: trim_def)
qed

lemma trim_quoted: "trim (CHR 0x22 # s @ [CHR 0x22]) = CHR 0x22 # s @ [CHR 0x22]"
  by (simp add: trim_def isSpace_def)

lemma stripQuotes_quoted: "stripQuotes (CHR 0x22 # s @ [CHR 0x22]) = s"
  by (simp add: stripQuotes_def)

lemma decode_writeField:
  "fieldOk fld \<Longrightarrow> unescapeQuotes (stripQuotes (trim (writeField fld))) = fieldValue fld"
proof (cases fld)
  case (Quoted s)
  then show ?thesis by (simp add: trim_quoted stripQuotes_quoted unescape_escape)
next
  case (Plain s)
  assume "fieldOk fld"
  with Plain have "CHR 0x22 \<notin> set (trim s)" using set_trim by fastforce
  then show ?thesis using Plain by (simp add: stripQuotes_no_quotes unescape_no_quotes)
qed

section \<open>Facts about the bulk import\<close>

lemma truthy_iff: "truthy v \<longleftrightarrow> (\<exists>a. v = Some a \<and> a \<noteq> [])"
  by (cases v) simp_all

lemma rowAuthors_author:
  "row ''author'' = Some a \<Longrightarrow> a \<noteq> [] \<Longrightarrow> rowAuthors row = map trim (splitOn CHR '','' a)"
  by (simp add: rowAuthors_def)

lemma parseRows_skip:
  "\<not> truthy (rowGet headers (parseLine line) ''author'')
   \<Longrightarrow> parseRows now headers i (line # rest) = parseRows now headers (Suc i) rest"
  by (simp add: Let_def)

lemma parseRows_Cons_cases:
  "parseRows now headers i (line # rest) = parseRows now headers (Suc i) rest
   \<or> (truthy (rowGet headers (parseLine line) ''author'')
       \<and> parseRows now headers i (line # rest)
           = rowBook now i (rowGet headers (parseLine line)) # parseRows now headers (Suc i) rest)"
  by (simp add: Let_def)

lemma authors_rowBook: "authors (rowBook now i row) = rowAuthors row"
  by (simp add: rowBook_def Let_def)

lemma parseRows_authors:
  "b \<in> set (parseRows now headers i lines)
   \<Longrightarrow> \<exists>line a. line \<in> set lines \<and> a \<noteq> []
         \<and> rowGet headers (parseLine line) ''author'' = Some a
         \<and> authors b = map trim (splitOn CHR '','' a)"
proof (induction lines arbitrary: i)
  case Nil
  then show ?case by simp
next
  case (Cons line rest)
  let ?row = "rowGet headers (parseLine line)"
  show ?case
  proof (cases "b \<in> set (parseRows now headers (Suc i) rest)")
    case True
    from Cons.IH [OF True] obtain l a where "l \<in> set rest" "a \<noteq> []"
      "rowGet headers (parseLine l) ''author'' = Some a"
      "authors b = map trim (splitOn CHR '','' a)"
      by blast
    then show ?thesis
      by (intro exI [of _ l] exI [of _ a]) simp
  next
    case False
    with Cons.prems parseRows_Cons_cases [of now headers i line rest]
    have acc: "truthy (?row ''author'')" and b: "b = rowBook now i ?row"
      by auto
    from acc obtain a where a: "?row ''author'' = Some a" "a \<noteq> []"
      unfolding truthy_iff by blast
    have "authors b = map trim (splitOn CHR '','' a)"
      unfolding b authors_rowBook using a by (rule rowAuthors_author)
    with a show ?thesis
      by (intro exI [of _ line] exI [of _ a]) simp
  qed
qed

lemma parseRows_no_header:
  "''title'' \<notin> set headers \<or> ''author'' \<notin> set headers
   \<Longrightarrow> parseRows now headers i lines = []"
proof (induction lines arbitrary: i)
  case Nil
  then show ?case by simp
next
  case (Cons line rest)
  have "rowGet headers (parseLine line) ''title'' = None
        \<or> rowGet headers (parseLine line) ''author'' = None"
    using Cons.prems
    by (auto simp: rowGet_def map_of_eq_None_iff dest!: set_zip_leftD)
  then have "\<not> truthy (rowGet headers (parseLine line) ''title'')
        \<or> \<not> truthy (rowGet headers (parseLine line) ''author'')"
    by auto
  with Cons show ?case by (simp add: Let_def)
qed

lemma handleBulkImport_fst:
  "fst (handleBulkImport ul bs parsed)
     = bs @ filter (\<lambda>b. \<not> isDuplicate ul bs b \<and> \<not> hasId bs (bookId b)) parsed"
proof (cases "filter (\<lambda>book. \<not> isDuplicate ul bs book) parsed = []")
  case True
  then have "filter (\<lambda>b. \<not> isDuplicate ul bs b \<and> \<not> hasId bs (bookId b)) parsed = []"
    by (auto simp: filter_empty_conv)
  with True show ?thesis by (simp add: handleBulkImport_def)
next
  case False
  then show ?thesis
    by (simp add: handleBulkImport_def Let_def addBook_Many hasId_iff conj_commute)
qed

lemma handleFileUpload_error:
  "parseFile ul now dp name text = Inl msg \<or> parseFile ul now dp name text = Inr []
   \<Longrightarrow> parsedBooks (handleFileUpload ul now dp name text) = []
       \<and> bulkError (handleFileUpload ul now dp name text) \<noteq> []"
  by (auto simp: handleFileUpload_def split: if_splits)

lemma finalCurrentPage_ok:
  "0 < totalPages \<Longrightarrow> statusPageOk status totalPages (Some (finalCurrentPage currentPageText status totalPages))"
  by (cases status) (simp_all add: finalCurrentPage_def Let_def split: option.splits)

lemma handleStatusUpdate_ok:
  "0 \<le> pageCount book \<Longrightarrow> statusPageInvariant (handleStatusUpdate book st currentPageText)"
  by (cases st) (simp_all add: handleStatusUpdate_def statusPageInvariant_def Let_def split: option.splits)

lemma handleFileUpload_message:
  "(parseFile ul now dp name input = Inr []
      \<longrightarrow> bulkError (handleFileUpload ul now dp name input) = ''No valid books found in file.'')
   \<and> (parseFile ul now dp name input = Inl msg \<and> msg \<noteq> []
      \<longrightarrow> bulkError (handleFileUpload ul now dp name input) = msg)"
  by (simp add: handleFileUpload_def)

lemma parseFile_unsupported:
  "\<not> endsWith name ''.csv'' \<Longrightarrow> \<not> endsWith name ''.xml''
   \<Longrightarrow> parseFile ul now dp name input = Inl ''Unsupported file format. Please use .csv or .xml''"
  by (simp add: parseFile_def)

lemma parseFile_short_csv:
  "endsWith name ''.csv'' \<Longrightarrow> length (csvLines input) < 2
   \<Longrightarrow> parseFile ul now dp name input = Inl ''CSV file is empty or missing headers''"
  by (simp add: parseFile_def parseCSV_def)

lemma parseFile_headerless_csv:
  assumes "endsWith name ''.csv''" and "2 \<le> length (csvLines input)"
    and "''title'' \<notin> set (parseLine (toLowerCase ul (hd (csvLines input))))
         \<or> ''author'' \<notin> set (parseLine (toLowerCase ul (hd (csvLines input))))"
  shows "parseFile ul now dp name input = Inr []"
  using assms(1,2) parseRows_no_header [OF assms(3)]
  by (simp add: parseFile_def parseCSV_def Let_def)

lemma parseFile_xml_no_books:
  "\<not> endsWith name ''.csv'' \<Longrightarrow> endsWith name ''.xml'' \<Longrightarrow> dp input = []
   \<Longrightarrow> parseFile ul now dp name input = Inr []"
  by (simp add: parseFile_def parseXML_def)

lemma handleBulkImport_Nil: "handleBulkImport ul bs [] = (bs, 0)"
  by (simp add: handleBulkImport_def)

text \<open>The ids of one parse are pairwise distinct: the row index is part of the id.\<close>

lemma digit_distinct:
  "i < 10 \<Longrightarrow> j < 10 \<Longrightarrow> ''0123456789'' ! i = ''0123456789'' ! j \<Longrightarrow> i = j"
proof -
  assume "i < 10" "j < 10" "''0123456789'' ! i = ''0123456789'' ! j"
  moreover have "distinct ''0123456789''" by simp
  ultimately show ?thesis by (simp add: nth_eq_iff_index_eq)
qed

lemma digit_not_underscore: "i < 10 \<Longrightarrow> ''0123456789'' ! i \<noteq> CHR ''_''"
proof -
  assume "i < 10"
  then have "''0123456789'' ! i \<in> set ''0123456789''" by (intro nth_mem) simp
  then show ?thesis by auto
qed

lemma showNat_ne: "showNat n \<noteq> []"
  by (subst showNat.simps) simp

lemma showNat_no_underscore: "CHR ''_'' \<notin> set (showNat n)"
proof (induction n rule: showNat.induct)
  case (1 n)
  show ?case
  proof (cases "n < 10")
    case True
    then show ?thesis using digit_not_underscore [of n] by (subst showNat.simps) auto
  next
    case False
    then have "n mod 10 < 10" by simp
    with False 1 show ?thesis
      using digit_not_underscore [of "n mod 10"] by (subst showNat.simps) auto
  qed
qed

lemma showNat_inj: "showNat n = showNat m \<Longrightarrow> n = m"
proof (induction n arbitrary: m rule: showNat.induct)
  case (1 n)
  show ?case
  proof (cases "n < 10")
    case n: True
    show ?thesis
    proof (cases "m < 10")
      case True
      with n 1(2) show ?thesis
        using digit_distinct [of n m] by (simp add: showNat.simps [of n] showNat.simps [of m])
    next
      case False
      with n 1(2) have "[''0123456789'' ! n] = showNat (m div 10) @ [''0123456789'' ! (m mod 10)]"
        by (simp add: showNat.simps [of n] showNat.simps [of m])
      then show ?thesis using showNat_ne [of "m div 10"] by simp
    qed
  next
    case n: False
    show ?thesis
    proof (cases "m < 10")
      case True
      with n 1(2) have "showNat (n div 10) @ [''0123456789'' ! (n mod 10)] = [''0123456789'' ! m]"
        by (simp add: showNat.simps [of n] showNat.simps [of m])
      then show ?thesis using showNat_ne [of "n div 10"] by simp
    next
      case False
      with n 1(2) have e: "showNat (n div 10) = showNat (m div 10)"
        and d: "''0123456789'' ! (n mod 10) = ''0123456789'' ! (m mod 10)"
        by (simp_all add: showNat.simps [of n] showNat.simps [of m])
      from 1(1) [OF n e] have "n div 10 = m div 10" .
      moreover from d have "n mod 10 = m mod 10"
        by (intro digit_distinct) simp_all
      ultimately show ?thesis by (metis div_mult_mod_eq)
    qed
  qed
qed

lemma split_underscore:
  assumes "a @ CHR ''_'' # b = a' @ CHR ''_'' # b'"
    and "CHR ''_'' \<notin> set a" and "CHR ''_'' \<notin> set a'"
  shows "a = a' \<and> b = b'"
  using assms
proof (induction a arbitrary: a')
  case Nil
  then show ?case by (cases a') auto
next
  case (Cons x a)
  then show ?case by (cases a') auto
qed

lemma bulkId_inj:
  "''bulk_'' @ showNat t @ ''_'' @ showNat i = ''bulk_'' @ showNat t' @ ''_'' @ showNat j
   \<Longrightarrow> i = j"
proof -
  assume "''bulk_'' @ showNat t @ ''_'' @ showNat i = ''bulk_'' @ showNat t' @ ''_'' @ showNat j"
  then have "showNat t @ CHR ''_'' # showNat i = showNat t' @ CHR ''_'' # showNat j"
    by simp
  then have "showNat i = showNat j"
    using split_underscore showNat_no_underscore by blast
  then show ?thesis by (rule showNat_inj)
qed

lemma bookId_rowBook: "bookId (rowBook now i row) = ''bulk_'' @ showNat (now i) @ ''_'' @ showNat i"
  by (simp add: rowBook_def Let_def)

lemma parseRows_ids:
  "b \<in> set (parseRows now headers i lines)
   \<Longrightarrow> \<exists>j \<ge> i. bookId b = ''bulk_'' @ showNat (now j) @ ''_'' @ showNat j"
proof (induction lines arbitrary: i)
  case Nil
  then show ?case by simp
next
  case (Cons line rest)
  show ?case
  proof (cases "b \<in> set (parseRows now headers (Suc i) rest)")
    case True
    from Cons.IH [OF True] obtain j where "Suc i \<le> j"
      "bookId b = ''bulk_'' @ showNat (now j) @ ''_'' @ showNat j" by blast
    then show ?thesis by (intro exI [of _ j]) simp
  next
    case False
    with Cons.prems parseRows_Cons_cases [of now headers i line rest]
    have "b = rowBook now i (rowGet headers (parseLine line))" by auto
    then show ?thesis by (intro exI [of _ i]) (simp add: bookId_rowBook)
  qed
qed

lemma distinct_parseRows: "distinct (map bookId (parseRows now headers i lines))"
proof (induction lines arbitrary: i)
  case Nil
  then show ?case by simp
next
  case (Cons line rest)
  let ?b = "rowBook now i (rowGet headers (parseLine line))"
  have fresh: "bookId ?b \<notin> bookId ` set (parseRows now headers (Suc i) rest)"
  proof
    assume "bookId ?b \<in> bookId ` set (parseRows now headers (Suc i) rest)"
    then obtain b where b: "b \<in> set (parseRows now headers (Suc i) rest)" "bookId b = bookId ?b"
      by auto
    from parseRows_ids [OF b(1)] obtain j where j: "Suc i \<le> j"
      "bookId b = ''bulk_'' @ showNat (now j) @ ''_'' @ showNat j" by blast
    from j(2) b(2) have "''bulk_'' @ showNat (now j) @ ''_'' @ showNat j
        = ''bulk_'' @ showNat (now i) @ ''_'' @ showNat i"
      unfolding bookId_rowBook by simp
    then have "j = i" by (rule bulkId_inj)
    with j(1) show False by simp
  qed
  from parseRows_Cons_cases [of now headers i line rest] show ?case
  proof
    assume "parseRows now headers i (line # rest) = parseRows now headers (Suc i) rest"
    then show ?thesis using Cons.IH by simp
  next
    assume "truthy (rowGet headers (parseLine line) ''author'')
       \<and> parseRows now headers i (line # rest) = ?b # parseRows now headers (Suc i) rest"
    then show ?thesis using Cons.IH [of "Suc i"] fresh by simp
  qed
qed

lemma distinct_parseCSV: "parseCSV ul now input = Inr bs \<Longrightarrow> distinct (map bookId bs)"
  by (auto simp: parseCSV_def Let_def distinct_parseRows split: if_splits)

section \<open>Facts about the category filter\<close>

lemma toLowerCase_Nil: "toLowerCase ul [] = []"
  by (simp add: toLowerCase_def)

lemma toLowerCase_ascii: "list_all isAscii s \<Longrightarrow> toLowerCase ul s = map lowerChar s"
  by (simp add: toLowerCase_def)

section \<open>Facts about the category counter\<close>

lemma map_of_assign:
  "map_of (assign acc c v) k = (if k = c then Some v else map_of acc k)"
proof (induction acc)
  case Nil
  then show ?case by simp
next
  case (Cons e acc)
  obtain k' v' where e: "e = (k', v')" by (cases e)
  show ?case unfolding e using Cons by (cases "k' = c") auto
qed

lemma keys_assign:
  "map fst (assign acc c v) = (if c \<in> fst ` set acc then map fst acc else map fst acc @ [c])"
proof (induction acc)
  case Nil
  then show ?case by simp
next
  case (Cons e acc)
  obtain k' v' where e: "e = (k', v')" by (cases e)
  show ?case unfolding e using Cons by (cases "k' = c") simp_all
qed

lemma set_assign: "e \<in> set (assign acc c v) \<Longrightarrow> e = (c, v) \<or> e \<in> set acc"
proof (induction acc)
  case Nil
  then show ?case by simp
next
  case (Cons x acc)
  obtain k' v' where x: "x = (k', v')" by (cases x)
  show ?case using Cons unfolding x by (cases "k' = c") auto
qed

lemma positiveNum_iff: "positiveNum v \<longleftrightarrow> (\<exists>n. v = Num n \<and> 0 < n)"
  by (cases v) simp_all

lemma goodAcc_lookup:
  assumes "goodAcc acc" and "map_of acc k = Some v"
  shows "\<exists>n. v = Num n \<and> 0 < n"
proof -
  from assms(2) have "(k, v) \<in> set acc" by (rule map_of_SomeD)
  with assms(1) have "positiveNum v" by (auto simp: goodAcc_def list_all_iff)
  then show ?thesis by (simp add: positiveNum_iff)
qed

lemma nextVal_plain:
  assumes "goodAcc acc" and "plainKey c"
  shows "nextVal nr acc c = Num (Suc (countOf acc c))"
proof (cases "map_of acc c")
  case None
  with assms(2) show ?thesis by (simp add: nextVal_def countOf_def plainKey_def)
next
  case (Some v)
  from goodAcc_lookup [OF assms(1) Some] obtain n where "v = Num n" by blast
  with Some show ?thesis by (simp add: nextVal_def countOf_def)
qed

lemma bump_plain:
  assumes "goodAcc acc" and "plainKey c"
  shows "bump nr acc c = assign acc c (Num (Suc (countOf acc c)))"
  using assms(2) nextVal_plain [OF assms] by (simp add: bump_def plainKey_def)

lemma goodAcc_bump:
  assumes "goodAcc acc" and "plainKey c"
  shows "goodAcc (bump nr acc c)"
proof -
  have d: "distinct (map fst (assign acc c (Num (Suc (countOf acc c)))))"
    using assms(1) by (simp add: keys_assign goodAcc_def)
  have "positiveNum (snd e)" if "e \<in> set (assign acc c (Num (Suc (countOf acc c))))" for e
  proof -
    from set_assign [OF that] show ?thesis
    proof
      assume "e = (c, Num (Suc (countOf acc c)))"
      then show ?thesis by simp
    next
      assume "e \<in> set acc"
      with assms(1) show ?thesis by (simp add: goodAcc_def list_all_iff)
    qed
  qed
  with d show ?thesis
    unfolding bump_plain [OF assms] by (simp add: goodAcc_def list_all_iff)
qed

lemma countOf_bump:
  assumes "goodAcc acc" and "plainKey c"
  shows "countOf (bump nr acc c) k = countOf acc k + (if k = c then 1 else 0)"
  unfolding bump_plain [OF assms] by (simp add: countOf_def map_of_assign)

lemma count_list_app: "count_list (xs @ ys) k = count_list xs k + count_list ys k"
  by (induction xs) auto

lemma countCategories_Cons:
  "countCategories nr acc (c # cats)
     = countCategories nr (if counted c then bump nr acc c else acc) cats"
  by (simp add: countCategories_def)

lemma countCategories_plain:
  assumes "goodAcc acc" and "list_all plainKey cats"
  shows "goodAcc (countCategories nr acc cats)
         \<and> countOf (countCategories nr acc cats) k
             = countOf acc k + (if counted k then count_list cats k else 0)"
  using assms
proof (induction cats arbitrary: acc)
  case Nil
  then show ?case by (simp add: countCategories_def)
next
  case (Cons c cats)
  let ?acc = "if counted c then bump nr acc c else acc"
  from Cons.prems have p: "plainKey c" and ps: "list_all plainKey cats" by simp_all
  have g: "goodAcc ?acc" using Cons.prems(1) p by (simp add: goodAcc_bump)
  have c: "countOf ?acc k = countOf acc k + (if counted c \<and> k = c then 1 else 0)"
    using Cons.prems(1) p by (simp add: countOf_bump)
  from Cons.IH [OF g ps] show ?case
    unfolding countCategories_Cons c by auto
qed

lemma categoryCounts_gen:
  assumes "goodAcc acc" and "list_all plainKey (concat (map categories bs))"
  shows "goodAcc (foldl (\<lambda>acc book. countCategories nr acc (categories book)) acc bs)
         \<and> countOf (foldl (\<lambda>acc book. countCategories nr acc (categories book)) acc bs) k
             = countOf acc k
               + (if counted k then count_list (concat (map categories bs)) k else 0)"
  using assms
proof (induction bs arbitrary: acc)
  case Nil
  then show ?case by simp
next
  case (Cons b bs)
  from Cons.prems(2) have p: "list_all plainKey (categories b)"
    and ps: "list_all plainKey (concat (map categories bs))" by simp_all
  from countCategories_plain [OF Cons.prems(1) p, of nr k]
  have g: "goodAcc (countCategories nr acc (categories b))"
    and c: "countOf (countCategories nr acc (categories b)) k
             = countOf acc k + (if counted k then count_list (categories b) k else 0)"
    by simp_all
  from Cons.IH [OF g ps] show ?case
    by (simp add: c count_list_app)
qed

lemma goodAcc_categoryCounts:
  "list_all plainKey (concat (map categories bs)) \<Longrightarrow> goodAcc (categoryCounts nr bs)"
  unfolding categoryCounts_def
  using categoryCounts_gen [of "[]" bs nr] by (simp add: goodAcc_def)

lemma countOf_categoryCounts:
  "list_all plainKey (concat (map categories bs))
   \<Longrightarrow> countOf (categoryCounts nr bs) k
       = (if counted k then count_list (concat (map categories bs)) k else 0)"
  unfolding categoryCounts_def
  using categoryCounts_gen [of "[]" bs nr k] by (simp add: goodAcc_def countOf_def)

lemma map_of_goodAcc:
  assumes "goodAcc acc"
  shows "map_of acc k = (if 0 < countOf acc k then Some (Num (countOf acc k)) else None)"
proof (cases "map_of acc k")
  case None
  then show ?thesis by (simp add: countOf_def)
next
  case (Some v)
  from goodAcc_lookup [OF assms Some] obtain n where "v = Num n" "0 < n" by blast
  with Some show ?thesis by (simp add: countOf_def)
qed

lemma mset_objectEntries: "mset (objectEntries acc) = mset acc"
  unfolding objectEntries_def by (simp add: multiset_partition [symmetric])

lemma set_objectEntries: "set (objectEntries acc) = set acc"
  using mset_objectEntries by (rule mset_eq_setD)

lemma distinct_objectEntries:
  "distinct (map fst (objectEntries acc)) = distinct (map fst acc)"
proof -
  have "mset (map fst (objectEntries acc)) = mset (map fst acc)"
    by (simp add: mset_objectEntries)
  then show ?thesis by (rule mset_eq_imp_distinct_iff)
qed

lemma goodAcc_objectEntries: "goodAcc (objectEntries acc) = goodAcc acc"
  by (simp add: goodAcc_def distinct_objectEntries list_all_iff set_objectEntries)

lemma map_of_objectEntries:
  assumes "distinct (map fst acc)"
  shows "map_of (objectEntries acc) = map_of acc"
  using assms by (simp add: map_of_inject_set distinct_objectEntries set_objectEntries)

lemma pick_last_max:
  assumes "list_all (\<lambda>e. positiveNum (snd e)) (e # es)"
  shows "\<exists>i < length (e # es).
      foldl pickGenre e es = (e # es) ! i
      \<and> (\<forall>j < length (e # es). numberOf (snd ((e # es) ! j)) \<le> numberOf (snd ((e # es) ! i)))
      \<and> (\<forall>j. i < j \<and> j < length (e # es)
            \<longrightarrow> numberOf (snd ((e # es) ! j)) < numberOf (snd ((e # es) ! i)))"
  using assms
proof (induction es rule: rev_induct)
  case Nil
  then show ?case by simp
next
  case (snoc x es)
  from snoc.prems have pe: "list_all (\<lambda>e. positiveNum (snd e)) (e # es)"
    and px: "positiveNum (snd x)" by simp_all
  from snoc.IH [OF pe] obtain i where i: "i < length (e # es)"
    "foldl pickGenre e es = (e # es) ! i"
    and le: "\<forall>j < length (e # es). numberOf (snd ((e # es) ! j)) \<le> numberOf (snd ((e # es) ! i))"
    and lt: "\<forall>j. i < j \<and> j < length (e # es)
               \<longrightarrow> numberOf (snd ((e # es) ! j)) < numberOf (snd ((e # es) ! i))"
    by blast
  let ?l = "e # es @ [x]"
  let ?r = "(e # es) ! i"
  have "?r \<in> set (e # es)" using i(1) by (rule nth_mem)
  with pe have pr: "positiveNum (snd ?r)" unfolding list_all_iff by blast
  from pr px obtain n m where n: "snd ?r = Num n" and m: "snd x = Num m"
    unfolding positiveNum_iff by blast
  have g: "jsGreater (snd ?r) (snd x) \<longleftrightarrow> numberOf (snd x) < numberOf (snd ?r)"
    unfolding n m by simp
  have nth_old: "\<And>j. j < length (e # es) \<Longrightarrow> ?l ! j = (e # es) ! j"
    by (metis append_Cons nth_append)
  have nth_new: "?l ! length (e # es) = x"
    by (metis append_Cons nth_append_length)
  have len: "length ?l = Suc (length (e # es))" by simp
  show ?case
  proof (cases "numberOf (snd x) < numberOf (snd ?r)")
    case True
    then have r: "foldl pickGenre e (es @ [x]) = ?l ! i"
      using i nth_old g by (simp add: pickGenre_def)
    have "\<forall>j < length ?l. numberOf (snd (?l ! j)) \<le> numberOf (snd (?l ! i))"
    proof (intro allI impI)
      fix j assume "j < length ?l"
      then consider "j < length (e # es)" | "j = length (e # es)" unfolding len by linarith
      then show "numberOf (snd (?l ! j)) \<le> numberOf (snd (?l ! i))"
      proof cases
        case 1
        then show ?thesis using le i(1) nth_old by metis
      next
        case 2
        then show ?thesis using True nth_new nth_old i(1) by (metis less_imp_le)
      qed
    qed
    moreover have "\<forall>j. i < j \<and> j < length ?l
        \<longrightarrow> numberOf (snd (?l ! j)) < numberOf (snd (?l ! i))"
    proof (intro allI impI)
      fix j assume a: "i < j \<and> j < length ?l"
      then consider "j < length (e # es)" | "j = length (e # es)" unfolding len by linarith
      then show "numberOf (snd (?l ! j)) < numberOf (snd (?l ! i))"
      proof cases
        case 1
        then show ?thesis using lt a i(1) nth_old by metis
      next
        case 2
        then show ?thesis using True nth_new nth_old i(1) by metis
      qed
    qed
    moreover have "i < length ?l" using i(1) by simp
    ultimately show ?thesis using r by blast
  next
    case False
    then have r: "foldl pickGenre e (es @ [x]) = ?l ! length (e # es)"
      using i nth_new g by (simp add: pickGenre_def)
    have "\<forall>j < length ?l. numberOf (snd (?l ! j)) \<le> numberOf (snd (?l ! length (e # es)))"
    proof (intro allI impI)
      fix j assume "j < length ?l"
      then consider "j < length (e # es)" | "j = length (e # es)" unfolding len by linarith
      then show "numberOf (snd (?l ! j)) \<le> numberOf (snd (?l ! length (e # es)))"
      proof cases
        case 1
        then have "numberOf (snd (?l ! j)) \<le> numberOf (snd ?r)" using le nth_old by metis
        also have "\<dots> \<le> numberOf (snd x)" using False by simp
        finally show ?thesis using nth_new by metis
      next
        case 2
        then show ?thesis by simp
      qed
    qed
    moreover have "\<forall>j. length (e # es) < j \<and> j < length ?l
        \<longrightarrow> numberOf (snd (?l ! j)) < numberOf (snd (?l ! length (e # es)))"
      unfolding len by auto
    moreover have "length (e # es) < length ?l" by simp
    ultimately show ?thesis using r by blast
  qed
qed

lemma map_of_entries:
  assumes "list_all plainKey (concat (map categories bs))"
  shows "map_of (objectEntries (categoryCounts nr bs)) c
     = (if counted c \<and> 0 < count_list (concat (map categories bs)) c
        then Some (Num (count_list (concat (map categories bs)) c)) else None)"
proof -
  have g: "goodAcc (categoryCounts nr bs)" using assms by (rule goodAcc_categoryCounts)
  then have "map_of (objectEntries (categoryCounts nr bs)) = map_of (categoryCounts nr bs)"
    by (intro map_of_objectEntries) (simp add: goodAcc_def)
  then show ?thesis
    by (simp add: map_of_goodAcc [OF g] countOf_categoryCounts [OF assms])
qed

lemma entries_Nil_iff:
  assumes "list_all plainKey (concat (map categories bs))"
  shows "objectEntries (categoryCounts nr bs) = []
     \<longleftrightarrow> list_all (\<lambda>c. \<not> counted c) (concat (map categories bs))"
proof
  assume e: "objectEntries (categoryCounts nr bs) = []"
  show "list_all (\<lambda>c. \<not> counted c) (concat (map categories bs))"
    unfolding list_all_iff
  proof
    fix c assume c: "c \<in> set (concat (map categories bs))"
    then have "count_list (concat (map categories bs)) c \<noteq> 0"
      unfolding count_list_0_iff by blast
    then have "0 < count_list (concat (map categories bs)) c"
      by blast
    moreover have "map_of (objectEntries (categoryCounts nr bs)) c = None"
      using e by simp
    ultimately show "\<not> counted c"
      unfolding map_of_entries [OF assms] by (auto split: if_splits)
  qed
next
  assume a: "list_all (\<lambda>c. \<not> counted c) (concat (map categories bs))"
  show "objectEntries (categoryCounts nr bs) = []"
  proof (cases "objectEntries (categoryCounts nr bs)")
    case Nil
    then show ?thesis .
  next
    case (Cons e es)
    then have "map_of (objectEntries (categoryCounts nr bs)) (fst e) = Some (snd e)"
      by simp
    then have "counted (fst e)" and "0 < count_list (concat (map categories bs)) (fst e)"
      unfolding map_of_entries [OF assms] by (auto split: if_splits)
    then have "counted (fst e)" and "fst e \<in> set (concat (map categories bs))"
      using count_list_0_iff [of "concat (map categories bs)" "fst e"] by auto
    with a show ?thesis unfolding list_all_iff by blast
  qed
qed

text \<open>
  With a category named like a property of \<open>Object.prototype\<close> the counter holds a
  string, which no comparison with a number ranks: \<open>constructor\<close>, three times in the
  books, loses to Poetry, twice, when it comes first, and wins over it when it comes
  last.
\<close>

lemma favoriteGenre_prototype_name:
  "categoryCounts (\<lambda>k. '' Object() { [native code] }'')
      [bookA\<lparr>categories := [''constructor'', ''Poetry'']\<rparr>,
       bookB\<lparr>categories := [''constructor'', ''Poetry'', ''__proto__'']\<rparr>,
       bookB\<lparr>categories := [''constructor'']\<rparr>]
     = [(''constructor'', Text ''function Object() { [native code] }111''),
        (''Poetry'', Num 2)]
   \<and> favoriteGenre (\<lambda>k. '' Object() { [native code] }'')
        [bookA\<lparr>categories := [''constructor'', ''Poetry'']\<rparr>,
         bookB\<lparr>categories := [''constructor'', ''Poetry'', ''__proto__'']\<rparr>,
         bookB\<lparr>categories := [''constructor'']\<rparr>] = ''Poetry''
   \<and> favoriteGenre (\<lambda>k. '' Object() { [native code] }'')
        [bookA\<lparr>categories := [''Poetry'', ''constructor'']\<rparr>] = ''constructor''"
  by code_simp

section \<open>The library state manager: claims\<close>

text \<open>
  C2, as stated: after any sequence of bulk adds no two entries share an id, whatever
  the batches are. The bulk branch of \<open>addBook\<close> compares an incoming book with the
  books of the library only, so a batch that carries the same id twice lands twice:
  here the batch \<open>[bookA, bookA]\<close> added to the empty library.
\<close>

theorem addMany_dedup_counterexample:
  "addBook [] (Many [bookA, bookA]) = [bookA, bookA]
   \<and> \<not> distinct (map bookId (addBook [] (Many [bookA, bookA])))"
  by (simp add: hasId_def)

text \<open>
  C2, amended: starting from a library with pairwise distinct ids, every sequence of
  bulk adds whose batches each have pairwise distinct ids leaves a library with pairwise
  distinct ids; a bulk add appends, in input order, exactly the incoming books whose id
  is not yet in the library; and the books of one CSV parse have pairwise distinct ids.
\<close>

theorem addMany_dedup:
  assumes "distinct (map bookId lib)"
    and "\<forall>batch \<in> set batches. distinct (map bookId batch)"
  shows "distinct (map bookId (foldl (\<lambda>l batch. addBook l (Many batch)) lib batches))
         \<and> addBook lib (Many inc) = lib @ filter (\<lambda>nb. bookId nb \<notin> bookId ` set lib) inc
         \<and> (parseCSV ul now input = Inr parsed \<longrightarrow> distinct (map bookId parsed))"
  using distinct_addMany_seq [OF assms] addBook_Many distinct_parseCSV by simp

theorem addMany_dedup_witness:
  "distinct (map bookId [bookA])
   \<and> distinct (map bookId [bookA, bookB]) \<and> distinct (map bookId [bookB])
   \<and> distinct (map bookId (foldl (\<lambda>l batch. addBook l (Many batch)) [bookA]
                              [[bookA, bookB], [bookB]]))
   \<and> foldl (\<lambda>l batch. addBook l (Many batch)) [bookA] [[bookA, bookB], [bookB]]
       = [bookA, bookB]
   \<and> map bookId (projr (parseCSV (\<lambda>s. s) (\<lambda>i. 7)
        (''title,author'' @ [CHR 0x0A] @ ''Dune,Frank Herbert'' @ [CHR 0x0A]
           @ ''Emma,Jane Austen''))) = [''bulk_7_1'', ''bulk_7_2'']
   \<and> distinct (map bookId (projr (parseCSV (\<lambda>s. s) (\<lambda>i. 7)
        (''title,author'' @ [CHR 0x0A] @ ''Dune,Frank Herbert'' @ [CHR 0x0A]
           @ ''Emma,Jane Austen''))))"
proof -
  let ?csv = "''title,author'' @ [CHR 0x0A] @ ''Dune,Frank Herbert'' @ [CHR 0x0A]
           @ ''Emma,Jane Austen''"
  have d: "distinct (map bookId [bookA])" by simp
  have b: "\<forall>batch \<in> set [[bookA, bookB], [bookB]]. distinct (map bookId batch)"
    by (simp add: bookA_def bookB_def)
  have r: "foldl (\<lambda>l batch. addBook l (Many batch)) [bookA] [[bookA, bookB], [bookB]]
             = [bookA, bookB]"
    by (simp add: hasId_def bookA_def bookB_def)
  have p: "parseCSV (\<lambda>s. s) (\<lambda>i. 7) ?csv = Inr (projr (parseCSV (\<lambda>s. s) (\<lambda>i. 7) ?csv))"
    by code_simp
  have i: "map bookId (projr (parseCSV (\<lambda>s. s) (\<lambda>i. 7) ?csv)) = [''bulk_7_1'', ''bulk_7_2'']"
    by code_simp
  from addMany_dedup [OF d b, where inc = "[]" and ul = "\<lambda>s. s" and now = "\<lambda>i. 7"
      and input = ?csv and parsed = "projr (parseCSV (\<lambda>s. s) (\<lambda>i. 7) ?csv)"] p
  have "distinct (map bookId (projr (parseCSV (\<lambda>s. s) (\<lambda>i. 7) ?csv)))"
    and "distinct (map bookId (foldl (\<lambda>l batch. addBook l (Many batch)) [bookA]
                              [[bookA, bookB], [bookB]]))"
    by blast+
  with d b r i show ?thesis by simp
qed

text \<open>
  C4, as stated: \<open>update\<close> fails with \<open>NotFoundError\<close> when no entry has the id. The
  operation the specification words fails on the empty library; \<open>updateBook\<close> has no
  failure result: it returns normally, the list as it was, and shows the book in the
  detail modal as after any update.
\<close>

theorem updateBook_not_found_counterexample:
  "update_spec bookA [] = Inl NotFoundError
   \<and> updateBook bookA \<lparr>books = [], selectedBookDetail = None\<rparr>
       = \<lparr>books = [], selectedBookDetail = Some bookA\<rparr>"
  by (simp add: update_spec_def updateBook_def hasId_def)

text \<open>
  C4, amended: \<open>updateBook\<close> replaces in place every entry whose id equals the id of
  the given book, keeping the length, the positions and all other entries; where the
  specification's update succeeds, \<open>updateBook\<close> computes the same list; when no entry
  has the id it reports no error and leaves the book list unchanged.
\<close>

theorem updateBook_in_place:
  "length (books (updateBook b app)) = length (books app)
   \<and> (\<forall>i < length (books app).
        books (updateBook b app) ! i
          = (if bookId (books app ! i) = bookId b then b else books app ! i))
   \<and> (hasId (books app) (bookId b)
        \<longrightarrow> update_spec b (books app) = Inr (books (updateBook b app)))
   \<and> (\<not> hasId (books app) (bookId b) \<longrightarrow> books (updateBook b app) = books app)"
  by (simp add: updateBook_books update_spec_def map_replace_absent)

theorem updateBook_in_place_witness:
  "hasId [bookA, bookB] (bookId (bookB\<lparr>title := ''Emma 2''\<rparr>))
   \<and> \<not> hasId [bookA] (bookId bookB)
   \<and> books (updateBook (bookB\<lparr>title := ''Emma 2''\<rparr>)
              \<lparr>books = [bookA, bookB], selectedBookDetail = None\<rparr>)
       = [bookA, bookB\<lparr>title := ''Emma 2''\<rparr>]
   \<and> update_spec (bookB\<lparr>title := ''Emma 2''\<rparr>) [bookA, bookB]
       = Inr [bookA, bookB\<lparr>title := ''Emma 2''\<rparr>]
   \<and> books (updateBook bookB \<lparr>books = [bookA], selectedBookDetail = None\<rparr>) = [bookA]"
proof -
  have h1: "hasId [bookA, bookB] (bookId (bookB\<lparr>title := ''Emma 2''\<rparr>))"
    by (simp add: hasId_def)
  have h2: "\<not> hasId [bookA] (bookId bookB)"
    by (simp add: hasId_def bookA_def bookB_def)
  have e: "books (updateBook (bookB\<lparr>title := ''Emma 2''\<rparr>)
                    \<lparr>books = [bookA, bookB], selectedBookDetail = None\<rparr>)
             = [bookA, bookB\<lparr>title := ''Emma 2''\<rparr>]"
    by (simp add: updateBook_def bookA_def bookB_def)
  from updateBook_in_place [of "bookB\<lparr>title := ''Emma 2''\<rparr>"
        "\<lparr>books = [bookA, bookB], selectedBookDetail = None\<rparr>"]
       updateBook_in_place [of bookB "\<lparr>books = [bookA], selectedBookDetail = None\<rparr>"]
       h1 h2 e
  show ?thesis by simp
qed

text \<open>
  C6: applying the same update twice gives the same state as applying it once (the
  book list and the book shown in the modal).
\<close>

theorem updateBook_idempotent:
  "updateBook b (updateBook b app) = updateBook b app"
  by (simp add: updateBook_def)

section \<open>The filter engine: claims\<close>

text \<open>
  C5: with the empty filter (all text fields empty, status \<open>'all'\<close>) the filter returns
  the books unchanged; with any filter the result is a subsequence of the books, and a
  book is in it exactly when it is in the list and passes all five predicates.
\<close>

theorem filteredBooks_correct:
  "filteredBooks ul bs initialFilters = bs
   \<and> subseq (filteredBooks ul bs f) bs
   \<and> set (filteredBooks ul bs f)
       = {b \<in> set bs. titleMatch ul f b \<and> authorMatch ul f b \<and> publisherMatch ul f b
                       \<and> categoryMatch ul f b \<and> statusMatch f b}"
  by (auto simp: filteredBooks_def initialFilters_def titleMatch_def authorMatch_def
      publisherMatch_def categoryMatch_def statusMatch_def toLowerCase_Nil)

theorem filteredBooks_correct_witness:
  "filteredBooks (\<lambda>s. s) [bookA, bookB] initialFilters = [bookA, bookB]
   \<and> subseq (filteredBooks (\<lambda>s. s) [bookA, bookB] (initialFilters\<lparr>titleF := ''dU''\<rparr>)) [bookA, bookB]
   \<and> filteredBooks (\<lambda>s. s) [bookA, bookB] (initialFilters\<lparr>titleF := ''dU''\<rparr>) = [bookA]"
proof -
  have "filteredBooks (\<lambda>s. s) [bookA, bookB] (initialFilters\<lparr>titleF := ''dU''\<rparr>) = [bookA]"
    by code_simp
  with filteredBooks_correct [where ul = "\<lambda>s. s" and bs = "[bookA, bookB]"
      and f = "initialFilters\<lparr>titleF := ''dU''\<rparr>"]
  show ?thesis by simp
qed

section \<open>The category filter: claims\<close>

text \<open>
  C10: the category predicate holds when the filter text is empty or when the
  lowercased filter text occurs as a contiguous block in the lowercased categories
  joined by \<open>", "\<close>. It is case-insensitive: two filter texts with the same lowercase
  form give the same answer, and so do two books whose joined categories have the same
  lowercase form; this holds whatever the host's case mapping does outside ASCII. So a
  filter text can match across the separator: \<open>science, FICTION\<close> contains \<open>", "\<close> and
  matches a book with the categories Science and Fiction, although it occurs in neither
  category.
\<close>

theorem categoryMatch_joined:
  "categoryMatch ul f b
     = (categoryF f = []
        \<or> sublist (toLowerCase ul (categoryF f))
             (toLowerCase ul (join '', '' (categories b))))
   \<and> (toLowerCase ul (categoryF f) = toLowerCase ul (categoryF f')
        \<longrightarrow> categoryMatch ul f b = categoryMatch ul f' b)
   \<and> (toLowerCase ul (join '', '' (categories b)) = toLowerCase ul (join '', '' (categories b'))
        \<longrightarrow> categoryMatch ul f b = categoryMatch ul f b')
   \<and> includesStr ''science, FICTION'' '', ''
   \<and> categoryMatch ul (initialFilters\<lparr>categoryF := ''science, FICTION''\<rparr>) bookA
   \<and> categoryMatch ul (initialFilters\<lparr>categoryF := ''SCIENCE, fiction''\<rparr>) bookA
   \<and> \<not> list_ex (\<lambda>c. includesStr (toLowerCase ul c) (toLowerCase ul ''science, FICTION''))
          (categories bookA)"
proof (intro conjI impI)
  show m: "\<And>g. categoryMatch ul g b
     = (categoryF g = []
        \<or> sublist (toLowerCase ul (categoryF g))
             (toLowerCase ul (join '', '' (categories b))))"
    by (simp add: categoryMatch_def includes_iff_sublist)
  have e: "\<And>g c. categoryMatch ul g c
     = sublist (toLowerCase ul (categoryF g)) (toLowerCase ul (join '', '' (categories c)))"
    by (auto simp: categoryMatch_def includes_iff_sublist toLowerCase_Nil)
  show "categoryMatch ul f b = categoryMatch ul f' b"
    if "toLowerCase ul (categoryF f) = toLowerCase ul (categoryF f')"
    using that by (simp add: e)
  show "categoryMatch ul f b = categoryMatch ul f b'"
    if "toLowerCase ul (join '', '' (categories b)) = toLowerCase ul (join '', '' (categories b'))"
    using that by (simp add: e)
  show "includesStr ''science, FICTION'' '', ''" by code_simp
  have l1: "toLowerCase ul ''science, FICTION'' = ''science, fiction''"
    by (simp add: toLowerCase_def isAscii_def)
  have l2: "toLowerCase ul ''SCIENCE, fiction'' = ''science, fiction''"
    by (simp add: toLowerCase_def isAscii_def)
  have l3: "toLowerCase ul (join '', '' (categories bookA)) = ''science, fiction''"
    by (simp add: toLowerCase_def isAscii_def bookA_def)
  have l4: "map (toLowerCase ul) (categories bookA) = [''science'', ''fiction'']"
    by (simp add: toLowerCase_def isAscii_def bookA_def)
  show "categoryMatch ul (initialFilters\<lparr>categoryF := ''science, FICTION''\<rparr>) bookA"
    by (simp add: e l1 l3)
  show "categoryMatch ul (initialFilters\<lparr>categoryF := ''SCIENCE, fiction''\<rparr>) bookA"
    by (simp add: e l2 l3)
  have "\<not> list_ex (\<lambda>c. includesStr c ''science, fiction'') [''science'', ''fiction'']"
    by code_simp
  then have "\<not> list_ex (\<lambda>c. includesStr c ''science, fiction'')
      (map (toLowerCase ul) (categories bookA))"
    unfolding l4 .
  then show "\<not> list_ex (\<lambda>c. includesStr (toLowerCase ul c) (toLowerCase ul ''science, FICTION''))
          (categories bookA)"
    unfolding l1 by (simp add: list_ex_iff)
qed

theorem categoryMatch_joined_witness:
  "toLowerCase (\<lambda>s. s) ''Classic'' = toLowerCase (\<lambda>s. s) ''CLASSIC''
   \<and> toLowerCase (\<lambda>s. s) (join '', '' (categories bookB))
       = toLowerCase (\<lambda>s. s) (join '', '' (categories (bookB\<lparr>categories := [''cLASSIC'']\<rparr>)))
   \<and> categoryMatch (\<lambda>s. s) (initialFilters\<lparr>categoryF := ''Classic''\<rparr>) bookB
   \<and> categoryMatch (\<lambda>s. s) (initialFilters\<lparr>categoryF := ''CLASSIC''\<rparr>) bookB
   \<and> categoryMatch (\<lambda>s. s) (initialFilters\<lparr>categoryF := ''Classic''\<rparr>)
        (bookB\<lparr>categories := [''cLASSIC'']\<rparr>)"
proof -
  have h1: "toLowerCase (\<lambda>s. s) (categoryF (initialFilters\<lparr>categoryF := ''Classic''\<rparr>))
      = toLowerCase (\<lambda>s. s) (categoryF (initialFilters\<lparr>categoryF := ''CLASSIC''\<rparr>))"
    by code_simp
  have h2: "toLowerCase (\<lambda>s. s) (join '', '' (categories bookB))
       = toLowerCase (\<lambda>s. s) (join '', '' (categories (bookB\<lparr>categories := [''cLASSIC'']\<rparr>)))"
    by code_simp
  have c: "categoryMatch (\<lambda>s. s) (initialFilters\<lparr>categoryF := ''Classic''\<rparr>) bookB"
    by code_simp
  note inst = categoryMatch_joined [where ul = "\<lambda>s. s"
      and f = "initialFilters\<lparr>categoryF := ''Classic''\<rparr>"
      and f' = "initialFilters\<lparr>categoryF := ''CLASSIC''\<rparr>"
      and b = bookB and b' = "bookB\<lparr>categories := [''cLASSIC'']\<rparr>"]
  from inst h1 c
  have c2: "categoryMatch (\<lambda>s. s) (initialFilters\<lparr>categoryF := ''CLASSIC''\<rparr>) bookB"
    by blast
  from inst h2 c
  have c3: "categoryMatch (\<lambda>s. s) (initialFilters\<lparr>categoryF := ''Classic''\<rparr>)
        (bookB\<lparr>categories := [''cLASSIC'']\<rparr>)"
    by blast
  from h1 h2 c c2 c3 show ?thesis by simp
qed

section \<open>The bulk import parser: claims\<close>

text \<open>
  C7: a line whose fields are written plainly or between double quotes (with the
  double quotes of the content doubled) is read back field by field: a quoted field
  gives its content, whatever commas and double quotes it holds, and is never cut at a
  comma inside the quotes; a plain field gives its text, trimmed.
\<close>

theorem parseLine_quoted_fields:
  assumes "fs \<noteq> []" and "\<forall>f \<in> set fs. fieldOk f"
  shows "parseLine (writeLine fs) = map fieldValue fs"
  using assms by (simp add: parseLine_def splitCsv_writeLine decode_writeField)

theorem parseLine_quoted_fields_witness:
  \<open>[Plain ''Dune'', Quoted ''Smith, John'', Quoted ''say "hi"'', Plain '' 412''] \<noteq> []
   \<and> list_all fieldOk [Plain ''Dune'', Quoted ''Smith, John'', Quoted ''say "hi"'', Plain '' 412'']
   \<and> writeLine [Plain ''Dune'', Quoted ''Smith, John'', Quoted ''say "hi"'', Plain '' 412'']
       = ''Dune,"Smith, John","say ""hi""", 412''
   \<and> parseLine ''Dune,"Smith, John","say ""hi""", 412''
       = [''Dune'', ''Smith, John'', ''say "hi"'', ''412'']
   \<and> parseLine ''"Smith, John"'' = [''Smith, John'']\<close>
proof -
  let ?fs = \<open>[Plain ''Dune'', Quoted ''Smith, John'', Quoted ''say "hi"'', Plain '' 412'']\<close>
  have ne: "?fs \<noteq> []" by simp
  have ok: "\<forall>f \<in> set ?fs. fieldOk f" by simp
  have w: \<open>writeLine ?fs = ''Dune,"Smith, John","say ""hi""", 412''\<close>
    by (simp add: writeLine_def)
  have v: \<open>map fieldValue ?fs = [''Dune'', ''Smith, John'', ''say "hi"'', ''412'']\<close>
    by (simp add: trim_def isSpace_def)
  have w1: \<open>writeLine [Quoted ''Smith, John''] = ''"Smith, John"''\<close>
    by (simp add: writeLine_def)
  from parseLine_quoted_fields [OF ne ok] parseLine_quoted_fields [of "[Quoted ''Smith, John'']"]
  show ?thesis unfolding w v w1 by simp
qed

text \<open>
  C9: a data row whose \<open>author\<close> field is missing or empty produces no book, whatever
  its title; so every book of the CSV parser has its authors from a non-empty \<open>author\<close>
  field of a data line, through the first branch of the authors expression, and the
  branches for the \<open>authors\<close> column and for \<open>['Unknown']\<close> are never taken.
\<close>

theorem csv_author_required:
  "(\<not> truthy (rowGet headers (parseLine line) ''author'')
      \<longrightarrow> parseRows now headers i (line # rest) = parseRows now headers (Suc i) rest)
   \<and> (parseCSV ul now input = Inr bs \<and> b \<in> set bs
      \<longrightarrow> (\<exists>l a. l \<in> set (tl (csvLines input)) \<and> a \<noteq> []
             \<and> rowGet (parseLine (toLowerCase ul (hd (csvLines input)))) (parseLine l) ''author''
                 = Some a
             \<and> authors b = rowAuthors (rowGet (parseLine (toLowerCase ul (hd (csvLines input))))
                                          (parseLine l))
             \<and> authors b = map trim (splitOn CHR '','' a)))"
proof (intro conjI impI)
  assume "\<not> truthy (rowGet headers (parseLine line) ''author'')"
  then show "parseRows now headers i (line # rest) = parseRows now headers (Suc i) rest"
    by (rule parseRows_skip)
next
  let ?hs = "parseLine (toLowerCase ul (hd (csvLines input)))"
  assume a: "parseCSV ul now input = Inr bs \<and> b \<in> set bs"
  then have "b \<in> set (parseRows now ?hs 1 (tl (csvLines input)))"
    by (auto simp: parseCSV_def Let_def split: if_splits)
  from parseRows_authors [OF this] obtain l a where
    la: "l \<in> set (tl (csvLines input))" "a \<noteq> []" "rowGet ?hs (parseLine l) ''author'' = Some a"
      "authors b = map trim (splitOn CHR '','' a)"
    by blast
  moreover have "rowAuthors (rowGet ?hs (parseLine l)) = map trim (splitOn CHR '','' a)"
    using la(3,2) by (rule rowAuthors_author)
  ultimately show "\<exists>l a. l \<in> set (tl (csvLines input)) \<and> a \<noteq> []
             \<and> rowGet ?hs (parseLine l) ''author'' = Some a
             \<and> authors b = rowAuthors (rowGet ?hs (parseLine l))
             \<and> authors b = map trim (splitOn CHR '','' a)"
    by (intro exI [of _ l] exI [of _ a]) simp
qed

theorem csv_author_required_witness:
  "\<not> truthy (rowGet [''title'', ''authors''] (parseLine ''Emma,Jane Austen'') ''author'')
   \<and> parseRows (\<lambda>i. 0) [''title'', ''authors''] 1 [''Emma,Jane Austen''] = []
   \<and> parseCSV (\<lambda>s. s) (\<lambda>i. 0) (''title,authors'' @ [CHR 0x0A] @ ''Emma,Jane Austen'') = Inr []
   \<and> parseCSV (\<lambda>s. s) (\<lambda>i. 0) (''title,AUTHOR'' @ [CHR 0x0A] @ ''Emma,Jane Austen'')
       = Inr [rowBook (\<lambda>i. 0) 1 (rowGet [''title'', ''author''] [''Emma'', ''Jane Austen''])]
   \<and> authors (rowBook (\<lambda>i. 0) 1 (rowGet [''title'', ''author''] [''Emma'', ''Jane Austen'']))
       = [''Jane Austen'']"
proof -
  let ?t = "''title,AUTHOR'' @ [CHR 0x0A] @ ''Emma,Jane Austen''"
  let ?b = "rowBook (\<lambda>i. 0) 1 (rowGet [''title'', ''author''] [''Emma'', ''Jane Austen''])"
  have h: "\<not> truthy (rowGet [''title'', ''authors''] (parseLine ''Emma,Jane Austen'') ''author'')"
    by code_simp
  have e: "parseRows (\<lambda>i. 0) [''title'', ''authors''] (Suc 1) [] = []"
    by simp
  have n: "parseCSV (\<lambda>s. s) (\<lambda>i. 0) (''title,authors'' @ [CHR 0x0A] @ ''Emma,Jane Austen'') = Inr []"
    by code_simp
  have p: "parseCSV (\<lambda>s. s) (\<lambda>i. 0) ?t = Inr [?b]"
    by code_simp
  have a: "authors ?b = [''Jane Austen'']"
    by code_simp
  from csv_author_required [where ul = "\<lambda>s. s" and headers = "[''title'', ''authors'']"
      and line = "''Emma,Jane Austen''" and now = "\<lambda>i. 0" and i = 1 and rest = "[]"
      and input = ?t and bs = "[?b]" and b = ?b] h e n p a
  show ?thesis by simp
qed

text \<open>
  C1 fails on the bulk path. The CSV parser stores \<open>parseInt(row.currentpage)\<close> as it
  is: the file below, with status \<open>Okudum\<close> (Read), 412 pages and current page 5, is
  parsed to one book, the import puts that book into the empty library, and the book
  breaks the status/page rule (Read with current page 5 of 412); the XML parser does
  the same with a \<open>book\<close> element of the same content. The single-book paths
  \<open>finalCurrentPage\<close> and \<open>handleStatusUpdate\<close> do apply the rule, see
  \<open>finalCurrentPage_ok\<close> and \<open>handleStatusUpdate_ok\<close>.
\<close>

theorem bulk_import_breaks_status_page_rule:
  "parsedBooks (handleFileUpload (\<lambda>s. s) (\<lambda>i. 0) (\<lambda>t. []) ''books.csv''
      (''title,author,pages,status,currentpage'' @ [CHR 0x0A]
         @ ''Dune,Frank Herbert,412,Okudum,5''))
     = [\<lparr>bookId = ''bulk_0_1'', title = ''Dune'', authors = [''Frank Herbert''],
         publisher = ''Unknown Publisher'', publishedDate = ''N/A'', description = [],
         pageCount = 412, categories = [''Uncategorized''],
         thumbnail = ''https://picsum.photos/seed/Dune/300/480'',
         readingStatus = Read, currentPage = Some 5\<rparr>]
   \<and> fst (handleBulkImport (\<lambda>s. s) []
        (parsedBooks (handleFileUpload (\<lambda>s. s) (\<lambda>i. 0) (\<lambda>t. []) ''books.csv''
           (''title,author,pages,status,currentpage'' @ [CHR 0x0A]
              @ ''Dune,Frank Herbert,412,Okudum,5''))))
     = [\<lparr>bookId = ''bulk_0_1'', title = ''Dune'', authors = [''Frank Herbert''],
         publisher = ''Unknown Publisher'', publishedDate = ''N/A'', description = [],
         pageCount = 412, categories = [''Uncategorized''],
         thumbnail = ''https://picsum.photos/seed/Dune/300/480'',
         readingStatus = Read, currentPage = Some 5\<rparr>]
   \<and> \<not> statusPageInvariant
        \<lparr>bookId = ''bulk_0_1'', title = ''Dune'', authors = [''Frank Herbert''],
         publisher = ''Unknown Publisher'', publishedDate = ''N/A'', description = [],
         pageCount = 412, categories = [''Uncategorized''],
         thumbnail = ''https://picsum.photos/seed/Dune/300/480'',
         readingStatus = Read, currentPage = Some 5\<rparr>
   \<and> map (\<lambda>b. (readingStatus b, pageCount b, currentPage b))
        (parseXML (\<lambda>i. 0)
          [\<lambda>tag. if tag = ''title'' then ''Dune'' else if tag = ''pages'' then ''412''
                 else if tag = ''status'' then ''Okudum''
                 else if tag = ''currentPage'' then ''5'' else []])
       = [(Read, 412, Some 5)]"
  by code_simp

text \<open>
  C3, as stated: a header-less CSV makes the parse raise an error. \<open>parseCSV\<close> throws
  only when the file has fewer than two non-blank lines; a header-less file with two
  data lines is parsed without an error, its first line read as the header, and yields
  no book. The message shown then comes from \<open>handleFileUpload\<close>.
\<close>

theorem headerless_csv_counterexample:
  "parseCSV (\<lambda>s. s) (\<lambda>i. 0) (''Dune,Frank Herbert'' @ [CHR 0x0A] @ ''Emma,Jane Austen'') = Inr []
   \<and> parseFile (\<lambda>s. s) (\<lambda>i. 0) (\<lambda>t. []) ''books.csv''
        (''Dune,Frank Herbert'' @ [CHR 0x0A] @ ''Emma,Jane Austen'') = Inr []
   \<and> bulkError (handleFileUpload (\<lambda>s. s) (\<lambda>i. 0) (\<lambda>t. []) ''books.csv''
        (''Dune,Frank Herbert'' @ [CHR 0x0A] @ ''Emma,Jane Austen''))
       = ''No valid books found in file.''"
  by code_simp

text \<open>
  C3, amended: an unsupported extension and a CSV file with fewer than two non-blank
  lines make the parse fail with a message; a CSV file of two or more lines whose first
  line names no \<open>title\<close> or no \<open>author\<close> column, and an XML document without \<open>book\<close>
  elements, parse to no book without an error. In all these cases \<open>handleFileUpload\<close>
  stages no book and shows a non-empty message (the message of the error, or \<open>No valid
  books found in file.\<close> when the parse gave no book), and an import of what is staged leaves
  the library as it was. Every bulk import leaves the library followed by the surviving
  candidates, appended in one step, or the library unchanged when none survives.
\<close>

theorem bulk_import_all_or_nothing:
  "(\<not> endsWith name ''.csv'' \<and> \<not> endsWith name ''.xml''
      \<longrightarrow> parseFile ul now dp name input
            = Inl ''Unsupported file format. Please use .csv or .xml'')
   \<and> (endsWith name ''.csv'' \<and> length (csvLines input) < 2
      \<longrightarrow> parseFile ul now dp name input = Inl ''CSV file is empty or missing headers'')
   \<and> (endsWith name ''.csv'' \<and> 2 \<le> length (csvLines input)
        \<and> (''title'' \<notin> set (parseLine (toLowerCase ul (hd (csvLines input))))
            \<or> ''author'' \<notin> set (parseLine (toLowerCase ul (hd (csvLines input)))))
      \<longrightarrow> parseFile ul now dp name input = Inr [])
   \<and> (\<not> endsWith name ''.csv'' \<and> endsWith name ''.xml'' \<and> dp input = []
      \<longrightarrow> parseFile ul now dp name input = Inr [])
   \<and> (parseFile ul now dp name input = Inl msg \<or> parseFile ul now dp name input = Inr []
      \<longrightarrow> parsedBooks (handleFileUpload ul now dp name input) = []
          \<and> bulkError (handleFileUpload ul now dp name input) \<noteq> []
          \<and> handleBulkImport ul bs (parsedBooks (handleFileUpload ul now dp name input)) = (bs, 0))
   \<and> (parseFile ul now dp name input = Inr []
      \<longrightarrow> bulkError (handleFileUpload ul now dp name input) = ''No valid books found in file.'')
   \<and> (parseFile ul now dp name input = Inl msg \<and> msg \<noteq> []
      \<longrightarrow> bulkError (handleFileUpload ul now dp name input) = msg)
   \<and> fst (handleBulkImport ul bs parsed)
       = bs @ filter (\<lambda>b. \<not> isDuplicate ul bs b \<and> \<not> hasId bs (bookId b)) parsed"
proof (intro conjI impI)
  assume "parseFile ul now dp name input = Inl msg \<or> parseFile ul now dp name input = Inr []"
  from handleFileUpload_error [OF this]
  show "parsedBooks (handleFileUpload ul now dp name input) = []"
    and "bulkError (handleFileUpload ul now dp name input) \<noteq> []"
    and "handleBulkImport ul bs (parsedBooks (handleFileUpload ul now dp name input)) = (bs, 0)"
    by (simp_all add: handleBulkImport_Nil)
qed (simp_all add: parseFile_unsupported parseFile_short_csv parseFile_headerless_csv
      parseFile_xml_no_books handleBulkImport_fst handleFileUpload_message)

theorem bulk_import_all_or_nothing_witness:
  "parseFile (\<lambda>s. s) (\<lambda>i. 0) (\<lambda>t. []) ''books.txt'' ''title,author''
     = Inl ''Unsupported file format. Please use .csv or .xml''
   \<and> parseFile (\<lambda>s. s) (\<lambda>i. 0) (\<lambda>t. []) ''books.csv'' ''title,author''
     = Inl ''CSV file is empty or missing headers''
   \<and> parseFile (\<lambda>s. s) (\<lambda>i. 0) (\<lambda>t. []) ''books.csv''
        (''Dune,Frank Herbert'' @ [CHR 0x0A] @ ''Emma,Jane Austen'') = Inr []
   \<and> parseFile (\<lambda>s. s) (\<lambda>i. 0) (\<lambda>t. []) ''books.xml'' [] = Inr []
   \<and> bulkError (handleFileUpload (\<lambda>s. s) (\<lambda>i. 0) (\<lambda>t. []) ''books.csv'' ''title,author'')
     = ''CSV file is empty or missing headers''
   \<and> handleBulkImport (\<lambda>s. s) [bookA]
        (parsedBooks (handleFileUpload (\<lambda>s. s) (\<lambda>i. 0) (\<lambda>t. []) ''books.csv'' ''title,author''))
     = ([bookA], 0)
   \<and> fst (handleBulkImport (\<lambda>s. s) [bookA] [bookA, bookB]) = [bookA, bookB]"
proof -
  let ?now = "\<lambda>i::nat. 0::nat" and ?dp = "\<lambda>t::string. [] :: BookNode list"
  let ?two = "''Dune,Frank Herbert'' @ [CHR 0x0A] @ ''Emma,Jane Austen''"
  have u: "\<not> endsWith ''books.txt'' ''.csv'' \<and> \<not> endsWith ''books.txt'' ''.xml''"
    by code_simp
  have c: "endsWith ''books.csv'' ''.csv'' \<and> length (csvLines ''title,author'') < 2"
    by code_simp
  have h: "endsWith ''books.csv'' ''.csv'' \<and> 2 \<le> length (csvLines ?two)
        \<and> (''title'' \<notin> set (parseLine (toLowerCase (\<lambda>s. s) (hd (csvLines ?two))))
            \<or> ''author'' \<notin> set (parseLine (toLowerCase (\<lambda>s. s) (hd (csvLines ?two)))))"
    by code_simp
  have x: "\<not> endsWith ''books.xml'' ''.csv'' \<and> endsWith ''books.xml'' ''.xml'' \<and> ?dp [] = []"
    by code_simp
  have e: "bulkError (handleFileUpload (\<lambda>s. s) ?now ?dp ''books.csv'' ''title,author'')
     = ''CSV file is empty or missing headers''"
    by code_simp
  have f: "filter (\<lambda>b. \<not> isDuplicate (\<lambda>s. s) [bookA] b \<and> \<not> hasId [bookA] (bookId b)) [bookA, bookB]
     = [bookB]"
    by code_simp
  note inst = bulk_import_all_or_nothing [where ul = "\<lambda>s. s" and now = ?now and dp = ?dp]
  have 1: "parseFile (\<lambda>s. s) ?now ?dp ''books.txt'' ''title,author''
     = Inl ''Unsupported file format. Please use .csv or .xml''"
    using inst [where name = "''books.txt''" and input = "''title,author''"] u by blast
  have 2: "parseFile (\<lambda>s. s) ?now ?dp ''books.csv'' ''title,author''
     = Inl ''CSV file is empty or missing headers''"
    using inst [where name = "''books.csv''" and input = "''title,author''"] c by blast
  have 3: "parseFile (\<lambda>s. s) ?now ?dp ''books.csv'' ?two = Inr []"
    using inst [where name = "''books.csv''" and input = ?two] h by blast
  have 4: "parseFile (\<lambda>s. s) ?now ?dp ''books.xml'' [] = Inr []"
    using inst [where name = "''books.xml''" and input = "[]"] x by blast
  have 5: "handleBulkImport (\<lambda>s. s) [bookA]
        (parsedBooks (handleFileUpload (\<lambda>s. s) ?now ?dp ''books.csv'' ''title,author''))
     = ([bookA], 0)"
    using inst [where name = "''books.csv''" and input = "''title,author''"
        and msg = "''CSV file is empty or missing headers''" and bs = "[bookA]"] 2
    by blast
  have 6: "fst (handleBulkImport (\<lambda>s. s) [bookA] [bookA, bookB]) = [bookA, bookB]"
    using inst [where bs = "[bookA]" and parsed = "[bookA, bookB]"] unfolding f by simp
  from 1 2 3 4 5 6 e show ?thesis by blast
qed

section \<open>The stats aggregator: claims\<close>

text \<open>
  C8, as stated: among the categories with the highest count the first one in the
  iteration order of the counter is the result. The reducer keeps its left argument
  only when it is strictly greater, so a later entry with the same count replaces an
  earlier one: for two books with the categories Science, Fiction and Classic, each
  counted once, the result is Classic, the last entry, not Science, the first.
\<close>

theorem favoriteGenre_first_counterexample:
  "objectEntries (categoryCounts (\<lambda>k. []) [bookA, bookB])
     = [(''Science'', Num 1), (''Fiction'', Num 1), (''Classic'', Num 1)]
   \<and> favoriteGenre (\<lambda>k. []) [bookA, bookB] = ''Classic''
   \<and> favoriteGenre (\<lambda>k. []) [bookA, bookB] \<noteq> ''Science''"
  by code_simp

text \<open>
  C8, amended: for every book list in which no category is named like a property of
  \<open>Object.prototype\<close>, the counter holds, one entry for a category, the number of
  occurrences of every category that is neither empty nor \<open>Uncategorized\<close>; when no
  such category occurs the result is \<open>N/A\<close>; otherwise the result is an entry of
  \<open>Object.entries\<close> whose count is the highest, and the last such entry in that order
  (every later entry has a strictly smaller count).
\<close>

theorem favoriteGenre_last_max:
  assumes "list_all plainKey (concat (map categories bs))"
  shows "map_of (objectEntries (categoryCounts nr bs)) c
     = (if counted c \<and> 0 < count_list (concat (map categories bs)) c
        then Some (Num (count_list (concat (map categories bs)) c)) else None)
   \<and> distinct (map fst (objectEntries (categoryCounts nr bs)))
   \<and> (list_all (\<lambda>c. \<not> counted c) (concat (map categories bs))
        \<longrightarrow> objectEntries (categoryCounts nr bs) = [] \<and> favoriteGenre nr bs = ''N/A'')
   \<and> (\<not> list_all (\<lambda>c. \<not> counted c) (concat (map categories bs))
        \<longrightarrow> (\<exists>i < length (objectEntries (categoryCounts nr bs)). \<exists>n.
              favoriteGenre nr bs = fst (objectEntries (categoryCounts nr bs) ! i)
              \<and> snd (objectEntries (categoryCounts nr bs) ! i) = Num n
              \<and> (\<forall>j < length (objectEntries (categoryCounts nr bs)).
                    \<exists>m. snd (objectEntries (categoryCounts nr bs) ! j) = Num m \<and> m \<le> n)
              \<and> (\<forall>j. i < j \<and> j < length (objectEntries (categoryCounts nr bs))
                    \<longrightarrow> (\<exists>m. snd (objectEntries (categoryCounts nr bs) ! j) = Num m
                              \<and> m < n))))"
proof (intro conjI impI)
  let ?es = "objectEntries (categoryCounts nr bs)"
  have g: "goodAcc ?es"
    using goodAcc_categoryCounts [OF assms] by (simp add: goodAcc_objectEntries)
  show "map_of ?es c
     = (if counted c \<and> 0 < count_list (concat (map categories bs)) c
        then Some (Num (count_list (concat (map categories bs)) c)) else None)"
    using assms by (rule map_of_entries)
  show "distinct (map fst ?es)"
    using g by (simp add: goodAcc_def)
  {
    assume "list_all (\<lambda>c. \<not> counted c) (concat (map categories bs))"
    then show e: "?es = []"
      by (simp add: entries_Nil_iff [OF assms])
    then show "favoriteGenre nr bs = ''N/A''"
      by (simp add: favoriteGenre_def)
  }
  assume "\<not> list_all (\<lambda>c. \<not> counted c) (concat (map categories bs))"
  then have "?es \<noteq> []" by (simp add: entries_Nil_iff [OF assms])
  then obtain e es where es: "?es = e # es" by (cases ?es) auto
  have f: "favoriteGenre nr bs = fst (foldl pickGenre e es)"
    by (simp add: favoriteGenre_def es)
  have p: "list_all (\<lambda>e. positiveNum (snd e)) (e # es)"
    using g unfolding es by (simp add: goodAcc_def)
  have num: "\<exists>m. snd ((e # es) ! j) = Num m \<and> m = numberOf (snd ((e # es) ! j))"
    if "j < length (e # es)" for j
  proof -
    from that have "(e # es) ! j \<in> set (e # es)" by (rule nth_mem)
    with p have "positiveNum (snd ((e # es) ! j))" unfolding list_all_iff by blast
    then show ?thesis unfolding positiveNum_iff by auto
  qed
  from pick_last_max [OF p] obtain i where i: "i < length (e # es)"
    "foldl pickGenre e es = (e # es) ! i"
    and le: "\<forall>j < length (e # es). numberOf (snd ((e # es) ! j)) \<le> numberOf (snd ((e # es) ! i))"
    and lt: "\<forall>j. i < j \<and> j < length (e # es)
               \<longrightarrow> numberOf (snd ((e # es) ! j)) < numberOf (snd ((e # es) ! i))"
    by blast
  let ?n = "numberOf (snd ((e # es) ! i))"
  have 1: "favoriteGenre nr bs = fst ((e # es) ! i)" using f i(2) by simp
  have 2: "snd ((e # es) ! i) = Num ?n" using num [OF i(1)] by auto
  have 3: "\<forall>j < length (e # es). \<exists>m. snd ((e # es) ! j) = Num m \<and> m \<le> ?n"
    using num le by metis
  have 4: "\<forall>j. i < j \<and> j < length (e # es) \<longrightarrow> (\<exists>m. snd ((e # es) ! j) = Num m \<and> m < ?n)"
    using num lt by metis
  show "\<exists>i < length ?es. \<exists>n.
          favoriteGenre nr bs = fst (?es ! i)
          \<and> snd (?es ! i) = Num n
          \<and> (\<forall>j < length ?es. \<exists>m. snd (?es ! j) = Num m \<and> m \<le> n)
          \<and> (\<forall>j. i < j \<and> j < length ?es \<longrightarrow> (\<exists>m. snd (?es ! j) = Num m \<and> m < n))"
    unfolding es using i(1) 1 2 3 4 by blast
qed

theorem favoriteGenre_last_max_witness:
  "list_all plainKey (concat (map categories [bookA, bookB, bookA]))
   \<and> \<not> list_all (\<lambda>c. \<not> counted c) (concat (map categories [bookA, bookB, bookA]))
   \<and> objectEntries (categoryCounts (\<lambda>k. []) [bookA, bookB, bookA])
       = [(''Science'', Num 2), (''Fiction'', Num 2), (''Classic'', Num 1)]
   \<and> map_of (objectEntries (categoryCounts (\<lambda>k. []) [bookA, bookB, bookA])) ''Fiction''
       = Some (Num 2)
   \<and> favoriteGenre (\<lambda>k. []) [bookA, bookB, bookA] = ''Fiction''
   \<and> list_all plainKey (concat (map categories []))
   \<and> list_all (\<lambda>c. \<not> counted c) (concat (map categories []))
   \<and> favoriteGenre (\<lambda>k. []) [] = ''N/A''"
proof -
  have h: "list_all plainKey (concat (map categories [bookA, bookB, bookA]))"
    by code_simp
  have h0: "list_all plainKey (concat (map categories []))"
    by simp
  have a: "\<not> list_all (\<lambda>c. \<not> counted c) (concat (map categories [bookA, bookB, bookA]))"
    by code_simp
  have b: "objectEntries (categoryCounts (\<lambda>k. []) [bookA, bookB, bookA])
       = [(''Science'', Num 2), (''Fiction'', Num 2), (''Classic'', Num 1)]"
    by code_simp
  have c: "favoriteGenre (\<lambda>k. []) [bookA, bookB, bookA] = ''Fiction''"
    by code_simp
  have d: "list_all (\<lambda>c. \<not> counted c) (concat (map categories []))"
    by simp
  have m: "map_of (objectEntries (categoryCounts (\<lambda>k. []) [bookA, bookB, bookA])) ''Fiction''
       = Some (Num 2)"
    unfolding b by simp
  have n: "favoriteGenre (\<lambda>k. []) [] = ''N/A''"
    using favoriteGenre_last_max [OF h0, where nr = "\<lambda>k. []" and c = "[]"] d by blast
  from favoriteGenre_last_max [OF h, where nr = "\<lambda>k. []" and c = "''Fiction''"]
    h h0 a b c d m n
  show ?thesis by blast
qed

end
